theory Spec2Isabelle
  imports Main "HOL-Library.Log_Nat"
begin

section \<open>Text and console\<close>

text \<open>
  A Python \<open>str\<close> is a \<open>string\<close>; a \<open>char\<close> stands for a code point below 256.
  \<open>isspace\<close> lists the code points below 256 that \<open>str.strip()\<close> removes:
  tab to carriage return, the four separators 28 to 31, the blank, NEL and the
  no-break space.
\<close>

definition isspace :: "char \<Rightarrow> bool" where
  "isspace c = (of_char c \<in> {9, 10, 11, 12, 13, 28, 29, 30, 31, 32, 133, 160 :: nat})"

definition strip :: "string \<Rightarrow> string" where
  "strip s = rev (dropWhile isspace (rev (dropWhile isspace s)))"

definition digit_char :: "nat \<Rightarrow> char" where
  "digit_char d = ''0123456789'' ! d"

fun digits_of :: "nat \<Rightarrow> string" where
  "digits_of n = (if n < 10 then [digit_char n] else digits_of (n div 10) @ [digit_char (n mod 10)])"

declare digits_of.simps [simp del]

text \<open>\<open>str_int i\<close> is what an f-string prints for the integer \<open>i\<close>.\<close>

definition str_int :: "int \<Rightarrow> string" where
  "str_int i = (if i < 0 then CHR ''-'' # digits_of (nat (- i)) else digits_of (nat i))"

text \<open>
  What a call leaves on the console comes first, one entry for each \<open>print\<close> and each
  prompt of \<open>input\<close>, in order; it stays there when the call ends in an exception.
  Standard input is the list of the lines still to be read; \<open>input\<close> on the empty list
  raises \<open>EOFError\<close>.
\<close>

datatype error = EOFError | ValueError | ZeroDivisionError | OverflowError

type_synonym 'a io = "string list \<times> (error + 'a)"

definition after :: "string list \<Rightarrow> 'a io \<Rightarrow> 'a io" where
  "after out r = (out @ fst r, snd r)"

definition rule40 :: string where
  "rule40 = replicate 40 CHR ''=''"

section \<open>Double precision, as far as the statistics use it\<close>

text \<open>
  \<open>Finite s m e\<close> is the double of sign \<open>s\<close> (True: negative) and magnitude \<open>m * 2 ^ e\<close>;
  \<open>Infinity s\<close> is the signed infinity.
\<close>

datatype pyfloat = Finite bool nat int | Infinity bool

text \<open>The nearest integer to \<open>n / d\<close>, a tie going to the even neighbour.\<close>

definition round_half_even :: "nat \<Rightarrow> nat \<Rightarrow> nat" where
  "round_half_even n d =
     (let q = n div d; r = n mod d
      in if 2 * r < d then q else if d < 2 * r then q + 1 else if even q then q else q + 1)"

text \<open>The nearest integer to \<open>(n / d) / 2 ^ e\<close>.\<close>

definition round_scaled :: "nat \<Rightarrow> nat \<Rightarrow> int \<Rightarrow> nat" where
  "round_scaled n d e =
     (if 0 \<le> e then round_half_even n (d * 2 ^ nat e) else round_half_even (n * 2 ^ nat (- e)) d)"

text \<open>\<open>\<lfloor>log\<^sub>2 (n / d)\<rfloor>\<close> for positive \<open>n\<close> and \<open>d\<close>, from the bit lengths.\<close>

definition floor_log2 :: "nat \<Rightarrow> nat \<Rightarrow> int" where
  "floor_log2 n d =
     (let k = bitlen (int n) - bitlen (int d)
      in if (if 0 \<le> k then d * 2 ^ nat k \<le> n else d \<le> n * 2 ^ nat (- k)) then k else k - 1)"

text \<open>
  The double nearest to the positive rational \<open>n / d\<close>: 53 significant bits, exponent
  not below that of the subnormals, \<open>None\<close> when the rounded value is beyond the
  largest double.
\<close>

definition round_to_double :: "nat \<Rightarrow> nat \<Rightarrow> (nat \<times> int) option" where
  "round_to_double n d =
     (if n = 0 then Some (0, 0)
      else let e = max (floor_log2 n d - 52) (- 1074); m = round_scaled n d e
           in if 971 < e \<or> (e = 971 \<and> m = 2 ^ 53) then None else Some (m, e))"

text \<open>\<open>a / b\<close> on integers: the correctly rounded quotient.\<close>

definition truediv :: "int \<Rightarrow> int \<Rightarrow> error + pyfloat" where
  "truediv a b =
     (if b = 0 then Inl ZeroDivisionError
      else case round_to_double (nat \<bar>a\<bar>) (nat \<bar>b\<bar>) of
             None \<Rightarrow> Inl OverflowError
           | Some (m, e) \<Rightarrow> Inr (Finite ((a < 0) \<noteq> (b < 0)) m e))"

text \<open>\<open>x * 100\<close> on a double: the correctly rounded product, infinite on overflow.\<close>

fun times_100 :: "pyfloat \<Rightarrow> pyfloat" where
  "times_100 (Infinity s) = Infinity s"
| "times_100 (Finite s m e) =
     (case round_to_double (100 * m * 2 ^ nat e) (2 ^ nat (- e)) of
        None \<Rightarrow> Infinity s
      | Some (m', e') \<Rightarrow> Finite s m' e')"

text \<open>The format \<open>.1f\<close>: the decimal with one digit after the point nearest to the double.\<close>

fun format_1f :: "pyfloat \<Rightarrow> string" where
  "format_1f (Infinity s) = (if s then ''-inf'' else ''inf'')"
| "format_1f (Finite s m e) =
     (let t = round_scaled (10 * m) 1 (- e)
      in (if s then ''-'' else '''') @ digits_of (t div 10) @ ''.'' @ digits_of (t mod 10))"

section \<open>The game\<close>

record game_state =
  min_range :: int
  max_range :: int
  total_games :: int
  wins :: int

definition GuessingGame_init :: game_state where
  "GuessingGame_init = \<lparr>min_range = 1, max_range = 5, total_games = 0, wins = 0\<rparr>"

text \<open>
  \<open>random.randint(a, b)\<close> is \<open>a + _randbelow(b - a + 1)\<close> and raises \<open>ValueError\<close> on an
  empty range; \<open>r\<close> is the entropy the generator draws, reduced below the width.
\<close>

definition generate_random_number :: "game_state \<Rightarrow> nat \<Rightarrow> error + (game_state \<times> int)" where
  "generate_random_number st r =
     (let width = max_range st - min_range st + 1
      in if 0 < width then Inr (st, min_range st + int (r mod nat width)) else Inl ValueError)"

definition guess_prompt :: "game_state \<Rightarrow> string" where
  "guess_prompt st =
     ''Enter your guess ('' @ str_int (min_range st) @ ''-'' @ str_int (max_range st) @ ''): ''"

definition range_message :: "game_state \<Rightarrow> string" where
  "range_message st =
     ''Enter a number between '' @ str_int (min_range st) @ '' and '' @ str_int (max_range st) @ ''.''"

definition invalid_message :: string where
  "invalid_message = ''Invalid input! Please enter a valid number.''"

text \<open>
  \<open>int_of\<close> is the builtin \<open>int\<close> on a line of input: \<open>None\<close> when it raises
  \<open>ValueError\<close>. The result holds the state, the guess and the lines left unread.
\<close>

fun get_user_guess ::
  "(string \<Rightarrow> int option) \<Rightarrow> game_state \<Rightarrow> string list \<Rightarrow> (game_state \<times> int \<times> string list) io"
where
  "get_user_guess int_of st [] = ([guess_prompt st], Inl EOFError)"
| "get_user_guess int_of st (line # rest) =
     (case int_of line of
        None \<Rightarrow> after [guess_prompt st, invalid_message] (get_user_guess int_of st rest)
      | Some guess \<Rightarrow>
          if min_range st \<le> guess \<and> guess \<le> max_range st
          then ([guess_prompt st], Inr (st, guess, rest))
          else after [guess_prompt st, range_message st] (get_user_guess int_of st rest))"

definition check_guess :: "game_state \<Rightarrow> int \<Rightarrow> int \<Rightarrow> game_state \<times> bool" where
  "check_guess st user_guess secret_number = (st, user_guess = secret_number)"

definition round_banner :: "string list" where
  "round_banner = [CHR 0x0A # rule40, ''NEW GAME ROUND'', rule40]"

definition secret_message :: "game_state \<Rightarrow> string" where
  "secret_message st =
     ''Secret number generated! (It's between '' @ str_int (min_range st) @ '' and ''
       @ str_int (max_range st) @ '')''"

definition win_message :: string where
  "win_message = ''You win!''"

definition loose_message :: "int \<Rightarrow> string" where
  "loose_message secret_number =
     ''You loose! The number was '' @ str_int secret_number @ ''. Better luck next time!''"

definition play_round ::
  "(string \<Rightarrow> int option) \<Rightarrow> game_state \<Rightarrow> nat \<Rightarrow> string list \<Rightarrow> (game_state \<times> string list) io"
where
  "play_round int_of st r stdin =
     (case generate_random_number st r of
        Inl e \<Rightarrow> (round_banner, Inl e)
      | Inr (st1, secret_number) \<Rightarrow>
          (case get_user_guess int_of st1 stdin of
             (out, Inl e) \<Rightarrow> (round_banner @ [secret_message st1] @ out, Inl e)
           | (out, Inr (st2, user_guess, rest)) \<Rightarrow>
               (case check_guess st2 user_guess secret_number of
                  (st3, True) \<Rightarrow>
                    (round_banner @ [secret_message st1] @ out @ [win_message],
                     Inr (st3\<lparr>wins := wins st3 + 1, total_games := total_games st3 + 1\<rparr>, rest))
                | (st3, False) \<Rightarrow>
                    (round_banner @ [secret_message st1] @ out @ [loose_message secret_number],
                     Inr (st3\<lparr>total_games := total_games st3 + 1\<rparr>, rest)))))"

definition statistics_head :: "game_state \<Rightarrow> string list" where
  "statistics_head st =
     [CHR 0x0A # rule40, ''GAME STATISTICS'', rule40,
      ''Total games played: '' @ str_int (total_games st),
      ''Games won: '' @ str_int (wins st),
      ''Games lost: '' @ str_int (total_games st - wins st)]"

text \<open>The local \<open>win_percentage\<close> of \<open>display_statistics\<close>, in the branch that computes it.\<close>

definition win_percentage :: "game_state \<Rightarrow> error + pyfloat" where
  "win_percentage st =
     (case truediv (wins st) (total_games st) of Inl e \<Rightarrow> Inl e | Inr q \<Rightarrow> Inr (times_100 q))"

definition display_statistics :: "game_state \<Rightarrow> game_state io" where
  "display_statistics st =
     (if 0 < total_games st
      then (case win_percentage st of
              Inl e \<Rightarrow> (statistics_head st, Inl e)
            | Inr p \<Rightarrow>
                (statistics_head st @ [''Win percentage: '' @ format_1f p @ ''%''], Inr st))
      else (statistics_head st @ [''Win percentage: 0%''], Inr st))"

definition menu_text :: "string list" where
  "menu_text =
     [CHR 0x0A # rule40, ''GUESSING GAME MENU'', rule40,
      ''1. New game'', ''2. View statistics'', ''3. Exit'', ''Enter your choice (1-3): '']"

lemma get_user_guess_consumes:
  "snd (get_user_guess int_of st stdin) = Inr (st', g, rest) \<Longrightarrow> length rest < length stdin"
proof (induction stdin)
  case Nil
  then show ?case by simp
next
  case (Cons line stdin)
  then show ?case
    by (auto simp: after_def less_Suc_eq split: option.splits if_splits)
qed

lemma play_round_consumes:
  "play_round int_of st r stdin = (out, Inr (st', rest)) \<Longrightarrow> length rest < length stdin"
proof -
  assume a: "play_round int_of st r stdin = (out, Inr (st', rest))"
  then obtain st2 g where "snd (get_user_guess int_of st stdin) = Inr (st2, g, rest)"
    by (auto simp: play_round_def check_guess_def generate_random_number_def Let_def
        split: sum.splits prod.splits bool.splits if_splits)
  then show ?thesis by (rule get_user_guess_consumes)
qed

text \<open>
  The menu loop. \<open>rng k\<close> is the entropy of the \<open>k\<close>-th draw of the process. The loop
  ends with the state it has reached when the choice is 3, and in \<open>EOFError\<close> when
  standard input ends.
\<close>

function show_menu ::
  "(string \<Rightarrow> int option) \<Rightarrow> (nat \<Rightarrow> nat) \<Rightarrow> nat \<Rightarrow> game_state \<Rightarrow> string list \<Rightarrow> game_state io"
where
  "show_menu int_of rng k st [] = (menu_text, Inl EOFError)"
| "show_menu int_of rng k st (line # stdin) =
     (let choice = strip line
      in if choice = ''1''
         then (case play_round int_of st (rng k) stdin of
                 (out, Inl e) \<Rightarrow> (menu_text @ out, Inl e)
               | (out, Inr (st', rest)) \<Rightarrow>
                   after (menu_text @ out) (show_menu int_of rng (k + 1) st' rest))
         else if choice = ''2''
         then (case display_statistics st of
                 (out, Inl e) \<Rightarrow> (menu_text @ out, Inl e)
               | (out, Inr st') \<Rightarrow> after (menu_text @ out) (show_menu int_of rng k st' stdin))
         else if choice = ''3''
         then (menu_text @ [''Thanks for playing! Goodbye!''], Inr st)
         else after (menu_text @ [''Invalid choice! Please enter 1, 2, or 3.''])
                (show_menu int_of rng k st stdin))"
  by pat_completeness auto
termination
  by (relation "measure (\<lambda>(int_of, rng, k, st, stdin). length stdin)")
    (auto dest: play_round_consumes [OF sym])

definition guessing_game_main ::
  "(string \<Rightarrow> int option) \<Rightarrow> (nat \<Rightarrow> nat) \<Rightarrow> string list \<Rightarrow> game_state io"
where
  "guessing_game_main int_of rng stdin =
     after [''Welcome to the Guessing Game!'', ''Try to guess the secret number between 1 and 5!'']
       (show_menu int_of rng 0 GuessingGame_init stdin)"

section \<open>The documentation generator\<close>

text \<open>An exception caught as \<open>Exception\<close>; \<open>message e\<close> is what \<open>{e}\<close> prints.\<close>

datatype exc = Exc (message: string)

subsection \<open>The two extraction passes\<close>

text \<open>
  \<open>re.findall(r'#(.+)', content)\<close>: the scan goes from left to right; at a \<open>#\<close> the
  group takes every character up to the end of the line (the dot matches anything but
  a line feed), needs at least one, and the scan resumes behind the match.
\<close>

definition not_newline :: "char \<Rightarrow> bool" where
  "not_newline c = (c \<noteq> CHR 0x0A)"

function findall_comments :: "string \<Rightarrow> string list" where
  "findall_comments [] = []"
| "findall_comments (c # s) =
     (if c = CHR ''#''
      then (if takeWhile not_newline s = [] then findall_comments s
            else takeWhile not_newline s # findall_comments (dropWhile not_newline s))
      else findall_comments s)"
  by pat_completeness auto
termination
  by (relation "measure length") (auto simp: less_Suc_eq_le length_dropWhile_le)

text \<open>
  \<open>inspect.cleandoc\<close>, as \<open>ast.get_docstring\<close> calls it (Python 3.11). First
  \<open>str.expandtabs()\<close>: a tab becomes the blanks up to the next multiple of 8, the column
  starting again behind a line feed or a carriage return.
\<close>

fun expandtabs :: "nat \<Rightarrow> string \<Rightarrow> string" where
  "expandtabs column [] = []"
| "expandtabs column (c # s) =
     (if c = CHR 0x09
      then replicate (8 - column mod 8) CHR '' '' @ expandtabs (column + (8 - column mod 8)) s
      else c # expandtabs (if c = CHR 0x0A \<or> c = CHR 0x0D then 0 else column + 1) s)"

text \<open>\<open>str.split('\n')\<close> and \<open>'\n'.join\<close>.\<close>

fun lines_of :: "string \<Rightarrow> string list" where
  "lines_of [] = [[]]"
| "lines_of (c # s) =
     (if c = CHR 0x0A then [] # lines_of s
      else (case lines_of s of [] \<Rightarrow> [[c]] | l # ls \<Rightarrow> (c # l) # ls))"

fun join_lines :: "string list \<Rightarrow> string" where
  "join_lines [] = []"
| "join_lines [l] = l"
| "join_lines (l # ls) = l @ CHR 0x0A # join_lines ls"

text \<open>
  The margin: the least indentation of the lines that are not blank, the first line
  left out by the caller; \<open>None\<close> stands for \<open>sys.maxsize\<close>.
\<close>

definition lstrip :: "string \<Rightarrow> string" where
  "lstrip s = dropWhile isspace s"

fun margin :: "string list \<Rightarrow> nat option" where
  "margin [] = None"
| "margin (line # lines) =
     (if lstrip line \<noteq> []
      then (case margin lines of
              None \<Rightarrow> Some (length line - length (lstrip line))
            | Some m \<Rightarrow> Some (min m (length line - length (lstrip line))))
      else margin lines)"

definition cleandoc :: "string \<Rightarrow> string" where
  "cleandoc document =
     (case lines_of (expandtabs 0 document) of
        [] \<Rightarrow> []
      | first # others \<Rightarrow>
          join_lines (dropWhile (\<lambda>l. l = []) (rev (dropWhile (\<lambda>l. l = []) (rev
            (lstrip first #
             (case margin others of None \<Rightarrow> others | Some m \<Rightarrow> map (drop m) others)))))))"

text \<open>
  What the generator reads off a node of the syntax tree: its class, its \<open>name\<close>
  attribute if it has one, the text of the string constant its body starts with if
  it starts with one, and its child nodes in the order of \<open>ast.iter_child_nodes\<close>.
\<close>

datatype node_class = Module | ClassDef | FunctionDef | AsyncFunctionDef | OtherNode

datatype ast = Node (node_class: node_class) (name_attr: "string option")
  (docstring_constant: "string option") (child_nodes: "ast list")

fun class_name :: "node_class \<Rightarrow> string" where
  "class_name Module = ''Module''"
| "class_name ClassDef = ''ClassDef''"
| "class_name FunctionDef = ''FunctionDef''"
| "class_name AsyncFunctionDef = ''AsyncFunctionDef''"
| "class_name OtherNode = ''Other''"

text \<open>\<open>ast.get_docstring(node)\<close>, for a node of a class that can have a docstring.\<close>

definition get_docstring :: "ast \<Rightarrow> string option" where
  "get_docstring node =
     (case docstring_constant node of None \<Rightarrow> None | Some text \<Rightarrow> Some (cleandoc text))"

fun count_nodes :: "ast \<Rightarrow> nat" where
  "count_nodes (Node c n d cs) = Suc (sum_list (map count_nodes cs))"

text \<open>\<open>ast.walk\<close>: breadth first, from a queue that starts with the root.\<close>

function walk_queue :: "ast list \<Rightarrow> ast list" where
  "walk_queue [] = []"
| "walk_queue (node # todo) = node # walk_queue (todo @ child_nodes node)"
  by pat_completeness auto
termination
proof (relation "measure (\<lambda>todo. sum_list (map count_nodes todo))")
  show "wf (measure (\<lambda>todo. sum_list (map count_nodes todo)))" by simp
next
  fix node :: ast and todo :: "ast list"
  show "(todo @ child_nodes node, node # todo) \<in> measure (\<lambda>todo. sum_list (map count_nodes todo))"
    by (cases node) simp
qed

definition walk :: "ast \<Rightarrow> ast list" where
  "walk tree = walk_queue [tree]"

record docstring_entry =
  node_type :: string
  node_name :: string
  docstring :: string

text \<open>The body of the loop over \<open>ast.walk(tree)\<close>: the entries one node appends.\<close>

definition node_entries :: "ast \<Rightarrow> docstring_entry list" where
  "node_entries node =
     (if node_class node \<in> {FunctionDef, ClassDef, Module}
      then (case get_docstring node of
              None \<Rightarrow> []
            | Some text \<Rightarrow>
                if text = [] then []
                else [\<lparr>node_type = class_name (node_class node),
                       node_name = (case name_attr node of None \<Rightarrow> ''Module'' | Some n \<Rightarrow> n),
                       docstring = text\<rparr>])
      else [])"

definition extract_docstrings :: "ast \<Rightarrow> docstring_entry list" where
  "extract_docstrings tree = concat (map node_entries (walk tree))"

record file_data =
  file_path :: string
  comments :: "string list"
  docstrings :: "docstring_entry list"

subsection \<open>The document\<close>

text \<open>
  The text of the document is kept as code points, since the source writes a
  character beyond 255 into it; \<open>points\<close> takes a text of the program there.
\<close>

type_synonym points = "nat list"

definition points :: "string \<Rightarrow> points" where
  "points s = map of_char s"

record run =
  run_text :: points
  bold :: bool

text \<open>\<open>Heading text level centred\<close>, a paragraph of runs, a page break.\<close>

datatype block = Heading points nat bool | Paragraph "run list" | PageBreak

definition plain :: "string \<Rightarrow> run" where
  "plain t = \<lparr>run_text = points t, bold = False\<rparr>"

definition strong :: "string \<Rightarrow> run" where
  "strong t = \<lparr>run_text = points t, bold = True\<rparr>"

text \<open>A run that starts a new line with the bullet U+2022.\<close>

definition bullet :: "string \<Rightarrow> run" where
  "bullet t = \<lparr>run_text = [10, 8226] @ points t, bold = False\<rparr>"

text \<open>
  The document library turns tab, line feed and carriage return into elements of
  their own and hands the rest of a text to the XML library, which refuses the other
  control characters, the surrogates and the two non-characters with \<open>ValueError\<close>.
\<close>

definition xml_char :: "nat \<Rightarrow> bool" where
  "xml_char c =
     ((32 \<le> c \<or> c \<in> {9, 10, 13}) \<and> \<not> (55296 \<le> c \<and> c \<le> 57343) \<and> c \<notin> {65534, 65535})"

definition xml_ok :: "points \<Rightarrow> bool" where
  "xml_ok t = list_all xml_char t"

definition xml_error :: exc where
  "xml_error = Exc (''All strings must be XML compatible: Unicode or ASCII, '' @
                    ''no NULL bytes or control characters'')"

fun block_texts :: "block \<Rightarrow> points list" where
  "block_texts (Heading t level centred) = [t]"
| "block_texts (Paragraph runs) = map run_text runs"
| "block_texts PageBreak = []"

record documentation_generator =
  doc :: "block list"
  comments_data :: "file_data list"

definition DocumentationGenerator_init :: documentation_generator where
  "DocumentationGenerator_init = \<lparr>doc = [], comments_data = []\<rparr>"

text \<open>
  \<open>read_file\<close> is \<open>open\<close> and \<open>read\<close> on a path, \<open>ast_parse\<close> is \<open>ast.parse\<close> on a text:
  each gives its result or the exception it raises. The call itself never raises.
\<close>

definition parse_python_file ::
  "(string \<Rightarrow> exc + string) \<Rightarrow> (string \<Rightarrow> exc + ast) \<Rightarrow> documentation_generator \<Rightarrow> string
     \<Rightarrow> string list \<times> documentation_generator"
where
  "parse_python_file read_file ast_parse self path =
     (case read_file path of
        Inl e \<Rightarrow> ([''Error parsing file '' @ path @ '': '' @ message e], self)
      | Inr content \<Rightarrow>
          (let found = findall_comments content
           in case ast_parse content of
                Inl e \<Rightarrow> ([''Error parsing file '' @ path @ '': '' @ message e], self)
              | Inr tree \<Rightarrow>
                  ([], self\<lparr>comments_data := comments_data self @
                         [\<lparr>file_path = path, comments = found,
                           docstrings = extract_docstrings tree\<rparr>]\<rparr>)))"

text \<open>
  The calls \<open>add_heading\<close>, \<open>add_paragraph\<close>, \<open>add_run\<close> and \<open>add_page_break\<close> that
  put a list of blocks behind the document. They raise when a text among them is not
  accepted; the exception is the same whichever text it is.
\<close>

definition add :: "block list \<Rightarrow> documentation_generator \<Rightarrow> exc + documentation_generator" where
  "add blocks self =
     (if list_all xml_ok (concat (map block_texts blocks))
      then Inr (self\<lparr>doc := doc self @ blocks\<rparr>) else Inl xml_error)"

text \<open>\<open>now\<close> is \<open>datetime.now().strftime("%Y-%m-%d %H:%M:%S")\<close>.\<close>

definition title_blocks :: "string \<Rightarrow> block list" where
  "title_blocks now =
     [Heading (points ''Python Guessing Game Documentation'') 0 True,
      Paragraph [],
      Paragraph [strong ''Generated on: '', plain now,
                 strong (CHR 0x0A # ''Author: ''), plain ''Python Developer'',
                 strong (CHR 0x0A # ''Version: ''), plain ''1.0''],
      PageBreak]"

definition create_title_page ::
  "string \<Rightarrow> documentation_generator \<Rightarrow> exc + documentation_generator"
where
  "create_title_page now self = add (title_blocks now) self"

definition contents_blocks :: "block list" where
  "contents_blocks =
     [Heading (points ''Table of Contents'') 1 False,
      Paragraph [strong (''1. Introduction'' @ [CHR 0x0A]),
                 strong (''2. File Documentation'' @ [CHR 0x0A]),
                 strong (''3. Class and Function Documentation'' @ [CHR 0x0A]),
                 strong (''4. Code Comments'' @ [CHR 0x0A])],
      PageBreak]"

definition create_table_of_contents ::
  "documentation_generator \<Rightarrow> exc + documentation_generator"
where
  "create_table_of_contents self = add contents_blocks self"

definition introduction_blocks :: "block list" where
  "introduction_blocks =
     [Heading (points ''1. Introduction'') 1 False,
      Paragraph [plain ''This document contains automatically generated documentation '',
                 plain ''for the Python Guessing Game application. The documentation '',
                 plain ''includes code comments, docstrings, and function descriptions '',
                 plain ''extracted directly from the source code.''],
      Paragraph [],
      Paragraph [plain ''Key Features:'',
                 bullet '' Number guessing game with range 1-5'',
                 bullet '' Statistics tracking'',
                 bullet '' Input validation'',
                 bullet '' Automated documentation generation'']]"

definition create_introduction :: "documentation_generator \<Rightarrow> exc + documentation_generator" where
  "create_introduction self = add introduction_blocks self"

definition module_blocks :: "docstring_entry \<Rightarrow> block list" where
  "module_blocks d =
     (if node_type d = ''Module''
      then [Paragraph [strong ''Module Documentation:'', plain (CHR 0x0A # docstring d)]]
      else [])"

definition file_blocks :: "file_data list \<Rightarrow> block list" where
  "file_blocks data =
     Heading (points ''2. File Documentation'') 1 False #
     concat (map (\<lambda>fd. Heading (points (''File: '' @ file_path fd)) 2 False #
                        concat (map module_blocks (docstrings fd))) data)"

definition create_file_documentation ::
  "documentation_generator \<Rightarrow> exc + documentation_generator"
where
  "create_file_documentation self = add (file_blocks (comments_data self)) self"

definition definition_blocks :: "docstring_entry \<Rightarrow> block list" where
  "definition_blocks d =
     (if node_type d \<in> set [''ClassDef'', ''FunctionDef'']
      then [Heading (points (node_type d @ '': '' @ node_name d)) 3 False,
            Paragraph [plain (docstring d)],
            Paragraph []]
      else [])"

definition class_function_blocks :: "file_data list \<Rightarrow> block list" where
  "class_function_blocks data =
     Heading (points ''3. Class and Function Documentation'') 1 False #
     concat (map (\<lambda>fd. concat (map definition_blocks (docstrings fd))) data)"

definition create_class_function_docs ::
  "documentation_generator \<Rightarrow> exc + documentation_generator"
where
  "create_class_function_docs self = add (class_function_blocks (comments_data self)) self"

text \<open>The paragraphs of one file in the comments section, numbered from 1.\<close>

definition comment_blocks :: "string list \<Rightarrow> block list" where
  "comment_blocks cs =
     (if cs = [] then [Paragraph [plain ''No comments found in this file.'']]
      else map (\<lambda>(i, comment).
                  Paragraph [strong (''Comment '' @ str_int (int i) @ '': ''), plain (strip comment)])
               (zip [1 ..< Suc (length cs)] cs))"

definition comments_section_blocks :: "file_data list \<Rightarrow> block list" where
  "comments_section_blocks data =
     Heading (points ''4. Code Comments'') 1 False #
     concat (map (\<lambda>fd. Heading (points (''Comments from '' @ file_path fd)) 2 False #
                        comment_blocks (comments fd)) data)"

definition create_comments_section ::
  "documentation_generator \<Rightarrow> exc + documentation_generator"
where
  "create_comments_section self = add (comments_section_blocks (comments_data self)) self"

subsection \<open>Writing the report\<close>

text \<open>
  The files of the machine by path: a saved document, a file cut short by a save that
  failed, or anything else. The operating system may refuse to remove a path
  (\<open>os.remove\<close> raises) and a save may fail: before the file is opened, which leaves
  the path as it is, or after it was opened for writing, which leaves it cut short.
\<close>

datatype stored = Saved "block list" | Truncated | Foreign string

datatype save_failure = Refused exc | Interrupted exc

record os_state =
  files :: "string \<Rightarrow> stored option"
  remove_error :: "string \<Rightarrow> exc option"
  save_error :: "string \<Rightarrow> save_failure option"

definition cleanup_old_documentation :: "os_state \<Rightarrow> string \<Rightarrow> string list \<times> os_state" where
  "cleanup_old_documentation os output_file =
     (if files os output_file \<noteq> None
      then (case remove_error os output_file of
              None \<Rightarrow> ([''Deleted old documentation: '' @ output_file],
                        os\<lparr>files := (files os)(output_file := None)\<rparr>)
            | Some e \<Rightarrow> ([''Warning: Could not delete old documentation: '' @ message e], os))
      else ([''No old documentation found. Creating new file.''], os))"

text \<open>One call after the other, as long as none has raised.\<close>

definition and_then :: "exc + 'a \<Rightarrow> ('a \<Rightarrow> exc + 'b) \<Rightarrow> exc + 'b" where
  "and_then r f = (case r of Inl e \<Rightarrow> Inl e | Inr x \<Rightarrow> f x)"

definition create_sections ::
  "string \<Rightarrow> documentation_generator \<Rightarrow> exc + documentation_generator"
where
  "create_sections now self =
     and_then (create_title_page now self) (\<lambda>self.
     and_then (create_table_of_contents self) (\<lambda>self.
     and_then (create_introduction self) (\<lambda>self.
     and_then (create_file_documentation self) (\<lambda>self.
     and_then (create_class_function_docs self) create_comments_section))))"

definition generate_documentation ::
  "string \<Rightarrow> os_state \<Rightarrow> documentation_generator \<Rightarrow> string
     \<Rightarrow> string list \<times> os_state \<times> (exc + documentation_generator)"
where
  "generate_documentation now os self output_file =
     (case cleanup_old_documentation os output_file of
        (cleaned, os1) \<Rightarrow>
          (case create_sections now self of
             Inl e \<Rightarrow> (''Starting documentation generation...'' # cleaned, os1, Inl e)
           | Inr self1 \<Rightarrow>
               (case save_error os1 output_file of
                  Some (Refused e) \<Rightarrow>
                    (''Starting documentation generation...'' # cleaned, os1, Inl e)
                | Some (Interrupted e) \<Rightarrow>
                    (''Starting documentation generation...'' # cleaned,
                     os1\<lparr>files := (files os1)(output_file \<mapsto> Truncated)\<rparr>, Inl e)
                | None \<Rightarrow>
                    (''Starting documentation generation...'' # cleaned @
                     [''Documentation generated successfully: '' @ output_file,
                      ''Total files processed: '' @ str_int (int (length (comments_data self1))),
                      ''Total comments extracted: '' @
                        str_int (int (sum_list (map (\<lambda>fd. length (comments fd)) (comments_data self1)))),
                      ''Total docstrings extracted: '' @
                        str_int (int (sum_list (map (\<lambda>fd. length (docstrings fd)) (comments_data self1))))],
                     os1\<lparr>files := (files os1)(output_file \<mapsto> Saved (doc self1))\<rparr>,
                     Inr self1))))"

text \<open>The calls of \<open>parse_python_file\<close> one after the other, for a list of paths.\<close>

fun parse_files ::
  "(string \<Rightarrow> exc + string) \<Rightarrow> (string \<Rightarrow> exc + ast) \<Rightarrow> documentation_generator \<Rightarrow> string list
     \<Rightarrow> string list \<times> documentation_generator"
where
  "parse_files read_file ast_parse self [] = ([], self)"
| "parse_files read_file ast_parse self (path # paths) =
     (case parse_python_file read_file ast_parse self path of
        (out, self1) \<Rightarrow>
          (case parse_files read_file ast_parse self1 paths of
             (out', self2) \<Rightarrow> (out @ out', self2)))"

definition documentation_generator_main ::
  "(string \<Rightarrow> exc + string) \<Rightarrow> (string \<Rightarrow> exc + ast) \<Rightarrow> string \<Rightarrow> os_state
     \<Rightarrow> string list \<times> os_state \<times> (exc + documentation_generator)"
where
  "documentation_generator_main read_file ast_parse now os =
     (case parse_files read_file ast_parse DocumentationGenerator_init
             [''guessing_game.py'', ''documentation_generator.py''] of
        (out, generator) \<Rightarrow>
          (case generate_documentation now os generator ''Guessing_Game_Documentation.docx'' of
             (out', r) \<Rightarrow> (out @ out', r)))"

section \<open>Notions of the specification\<close>


text \<open>
  A reading of \<open>int\<close> for the examples: it accepts the unsigned decimal numerals and
  nothing else.
\<close>

definition decimal_int :: "string \<Rightarrow> int option" where
  "decimal_int s =
     (if s \<noteq> [] \<and> list_all (\<lambda>c. of_char c \<in> {48 .. 57 :: nat}) s
      then Some (foldl (\<lambda>a c. 10 * a + (int (of_char c) - 48)) 0 s) else None)"


text \<open>A state after two rounds, one of them won.\<close>

definition example_state :: game_state where
  "example_state = \<lparr>min_range = 1, max_range = 5, total_games = 2, wins = 1\<rparr>"

text \<open>The rational \<open>2\<^sup>e\<close>, and the rational a finite double stands for.\<close>

definition pow2 :: "int \<Rightarrow> rat" where
  "pow2 e = (if 0 \<le> e then 2 ^ nat e else 1 / 2 ^ nat (- e))"

fun float_value :: "pyfloat \<Rightarrow> rat option" where
  "float_value (Infinity s) = None"
| "float_value (Finite s m e) = Some ((if s then - 1 else 1) * of_nat m * pow2 e)"

text \<open>A state after three rounds, one of them won.\<close>

definition third_state :: game_state where
  "third_state = \<lparr>min_range = 1, max_range = 5, total_games = 3, wins = 1\<rparr>"

text \<open>What a line gives the comment pass: the text behind its first \<open>#\<close>, if there is any.\<close>

definition line_comment :: "string \<Rightarrow> string option" where
  "line_comment l =
     (case dropWhile (\<lambda>c. c \<noteq> CHR ''#'') l of
        [] \<Rightarrow> None
      | _ # t \<Rightarrow> if t = [] then None else Some t)"

text \<open>
  One entry for every \<open>#\<close> that is followed by at least one character on its line,
  whether or not an earlier \<open>#\<close> stands on that line.
\<close>

fun every_hash :: "string \<Rightarrow> string list" where
  "every_hash [] = []"
| "every_hash (c # s) =
     (if c = CHR ''#'' \<and> takeWhile not_newline s \<noteq> []
      then takeWhile not_newline s # every_hash s else every_hash s)"

text \<open>
  Three lines: a string literal with a \<open>#\<close>, a line ending in \<open>#\<close>, a comment
  holding a second \<open>#\<close>.
\<close>

definition example_text :: string where
  "example_text = ''s = 'a#b' '' @ [CHR 0x0A] @ ''x = 1 #'' @ [CHR 0x0A] @ ''y = 2 # c # d''"

text \<open>A path whose file reads and parses.\<close>

definition parses :: "(string \<Rightarrow> exc + string) \<Rightarrow> (string \<Rightarrow> exc + ast) \<Rightarrow> string \<Rightarrow> bool" where
  "parses read_file ast_parse path =
     (case read_file path of
        Inl e \<Rightarrow> False
      | Inr content \<Rightarrow> (case ast_parse content of Inl e \<Rightarrow> False | Inr tree \<Rightarrow> True))"

text \<open>Three double quotes, the delimiter of a docstring.\<close>

definition quotes3 :: string where
  "quotes3 = replicate 3 (CHR 0x22)"

text \<open>
  A module with the docstring \<open>Doc #1\<close> and two blanks behind it, two comment lines
  and a function \<open>f\<close> with the docstring \<open>F.\<close>; \<open>example_tree\<close> is what \<open>ast.parse\<close>
  makes of it.
\<close>

definition example_source :: string where
  "example_source =
     quotes3 @ ''Doc #1  '' @ quotes3 @ [CHR 0x0A] @
     ''# a'' @ [CHR 0x0A] @
     ''# b'' @ [CHR 0x0A] @
     ''def f():'' @ [CHR 0x0A] @
     ''    '' @ quotes3 @ ''F.'' @ quotes3 @ [CHR 0x0A]"

definition leaf :: ast where
  "leaf = Node OtherNode None None []"

definition example_tree :: ast where
  "example_tree =
     Node Module None (Some ''Doc #1  '')
       [Node OtherNode None None [leaf],
        Node FunctionDef (Some ''f'') (Some ''F.'') [leaf, Node OtherNode None None [leaf]]]"

definition example_read :: "string \<Rightarrow> exc + string" where
  "example_read path =
     (if path = ''example.py'' then Inr example_source
      else if path = ''broken.py'' then Inr ''def''
      else Inl (Exc ''No such file''))"

definition example_parse :: "string \<Rightarrow> exc + ast" where
  "example_parse content =
     (if content = example_source then Inr example_tree else Inl (Exc ''invalid syntax''))"

text \<open>
  The sections of the report, from the time stamp and the collected data alone; a
  text of the program without a control character other than tab, line feed and
  carriage return; and whether the document library accepts every text of the report.
\<close>

definition report_blocks :: "string \<Rightarrow> file_data list \<Rightarrow> block list" where
  "report_blocks now data =
     title_blocks now @ contents_blocks @ introduction_blocks @ file_blocks data @
     class_function_blocks data @ comments_section_blocks data"

definition clean :: "string \<Rightarrow> bool" where
  "clean s = list_all (\<lambda>c. 32 \<le> (of_char c :: nat) \<or> of_char c \<in> {9, 10, 13 :: nat}) s"

definition accepted :: "string \<Rightarrow> file_data list \<Rightarrow> bool" where
  "accepted now data = list_all xml_ok (concat (map block_texts (report_blocks now data)))"

text \<open>
  Machines with an old file at the output path: one refuses to remove it, one removes
  it and runs out of space during the save, one refuses both.
\<close>

definition example_os :: os_state where
  "example_os =
     \<lparr>files = (\<lambda>p. if p = ''out.docx'' then Some (Foreign ''old'') else None),
      remove_error = (\<lambda>p. Some (Exc ''Permission denied'')),
      save_error = (\<lambda>p. None)\<rparr>"

definition full_disk_os :: os_state where
  "full_disk_os =
     \<lparr>files = (\<lambda>p. if p = ''out.docx'' then Some (Foreign ''old'') else None),
      remove_error = (\<lambda>p. None),
      save_error = (\<lambda>p. Some (Interrupted (Exc ''No space left on device'')))\<rparr>"

definition read_only_os :: os_state where
  "read_only_os =
     \<lparr>files = (\<lambda>p. if p = ''out.docx'' then Some (Foreign ''old'') else None),
      remove_error = (\<lambda>p. Some (Exc ''Permission denied'')),
      save_error = (\<lambda>p. Some (Refused (Exc ''Permission denied'')))\<rparr>"

text \<open>
  A file whose one comment holds a form feed, its tree, and the generator after
  parsing it.
\<close>

definition feed_source :: string where
  "feed_source = ''# a'' @ [CHR 0x0C] @ ''b'' @ [CHR 0x0A]"

definition feed_read :: "string \<Rightarrow> exc + string" where
  "feed_read path = Inr feed_source"

definition feed_parse :: "string \<Rightarrow> exc + ast" where
  "feed_parse content = Inr (Node Module None None [])"

definition feed_generator :: documentation_generator where
  "feed_generator =
     snd (parse_python_file feed_read feed_parse DocumentationGenerator_init ''feed.py'')"

text \<open>
  The nodes of a tree, and those of a class whose docstring is not empty once
  cleaned.
\<close>

fun preorder :: "ast \<Rightarrow> ast list" where
  "preorder (Node c n d cs) = Node c n d cs # concat (map preorder cs)"

definition documented :: "node_class \<Rightarrow> ast \<Rightarrow> bool" where
  "documented c node =
     (node_class node = c \<and> (case get_docstring node of None \<Rightarrow> False | Some text \<Rightarrow> text \<noteq> []))"

text \<open>A comment line: its first character that is no white space is \<open>#\<close>.\<close>

definition is_comment_line :: "string \<Rightarrow> bool" where
  "is_comment_line l = (case dropWhile isspace l of [] \<Rightarrow> False | c # _ \<Rightarrow> c = CHR ''#'')"

text \<open>
  A text without white space at either end, and a text that neither begins nor ends
  with an empty line.
\<close>

definition trimmed :: "string \<Rightarrow> bool" where
  "trimmed s = (s = [] \<or> (\<not> isspace (hd s) \<and> \<not> isspace (last s)))"

definition no_empty_edge :: "string \<Rightarrow> bool" where
  "no_empty_edge s = (s = [] \<or> (hd s \<noteq> CHR 0x0A \<and> last s \<noteq> CHR 0x0A))"

text \<open>
  A module whose docstring is indented and set between empty lines, with one comment
  line and one comment behind a statement.
\<close>

definition plain_source :: string where
  "plain_source =
     quotes3 @ [CHR 0x0A] @
     ''  Doc'' @ [CHR 0x0A] @
     quotes3 @ [CHR 0x0A] @
     ''# a'' @ [CHR 0x0A] @
     ''x = 1  #  b  '' @ [CHR 0x0A] @
     ''def f():'' @ [CHR 0x0A] @
     ''    '' @ quotes3 @ ''F.'' @ quotes3 @ [CHR 0x0A]"

definition plain_tree :: ast where
  "plain_tree =
     Node Module None (Some ([CHR 0x0A] @ ''  Doc'' @ [CHR 0x0A]))
       [Node OtherNode None None [leaf],
        Node OtherNode None None [Node OtherNode None None [leaf], leaf],
        Node FunctionDef (Some ''f'') (Some ''F.'') [leaf, Node OtherNode None None [leaf]]]"

definition plain_read :: "string \<Rightarrow> exc + string" where
  "plain_read path = Inr plain_source"

definition plain_parse :: "string \<Rightarrow> exc + ast" where
  "plain_parse content = Inr plain_tree"

section \<open>The game: properties\<close>

lemma guess_lines_not_marks:
  "guess_prompt st \<noteq> win_message" "guess_prompt st \<noteq> ''NEW GAME ROUND''"
  "range_message st \<noteq> win_message" "range_message st \<noteq> ''NEW GAME ROUND''"
  "invalid_message \<noteq> win_message" "invalid_message \<noteq> ''NEW GAME ROUND''"
  "secret_message st \<noteq> win_message" "secret_message st \<noteq> ''NEW GAME ROUND''"
  "loose_message n \<noteq> win_message" "loose_message n \<noteq> ''NEW GAME ROUND''"
  "win_message \<noteq> ''NEW GAME ROUND''"
  by (simp_all add: guess_prompt_def range_message_def invalid_message_def secret_message_def
      loose_message_def win_message_def)

lemma get_user_guess_out:
  "x \<noteq> guess_prompt st \<Longrightarrow> x \<noteq> range_message st \<Longrightarrow> x \<noteq> invalid_message \<Longrightarrow>
   count_list (fst (get_user_guess int_of st stdin)) x = 0"
  by (induction stdin) (auto simp: after_def split: option.splits)

lemma get_user_guess_result:
  "snd (get_user_guess int_of st stdin) = Inr (st', g, rest) \<Longrightarrow>
   st' = st \<and> min_range st \<le> g \<and> g \<le> max_range st"
  by (induction stdin) (auto simp: after_def split: option.splits if_splits)

lemma get_user_guess_error:
  "snd (get_user_guess int_of st stdin) = Inl e \<Longrightarrow>
   e = EOFError \<and> (\<forall>l \<in> set stdin. \<forall>n. int_of l = Some n \<longrightarrow> \<not> (min_range st \<le> n \<and> n \<le> max_range st))"
  by (induction stdin) (auto simp: after_def split: option.splits if_splits)

lemma get_user_guess_returns:
  "l \<in> set stdin \<Longrightarrow> int_of l = Some n \<Longrightarrow> min_range st \<le> n \<Longrightarrow> n \<le> max_range st \<Longrightarrow>
   \<exists>g rest. snd (get_user_guess int_of st stdin) = Inr (st, g, rest)"
  by (induction stdin) (auto simp: after_def split: option.splits if_splits)

lemma rule40_not_marks:
  "rule40 \<noteq> win_message" "rule40 \<noteq> ''NEW GAME ROUND''"
  "CHR 0x0A # rule40 \<noteq> win_message" "CHR 0x0A # rule40 \<noteq> ''NEW GAME ROUND''"
proof -
  have l: "length rule40 = 40" by (simp add: rule40_def)
  show "rule40 \<noteq> win_message"
  proof
    assume "rule40 = win_message"
    then have "length rule40 = length win_message" by simp
    with l show False by (simp add: win_message_def)
  qed
  show "rule40 \<noteq> ''NEW GAME ROUND''"
  proof
    assume "rule40 = ''NEW GAME ROUND''"
    then have "length rule40 = length ''NEW GAME ROUND''" by simp
    with l show False by simp
  qed
  show "CHR 0x0A # rule40 \<noteq> win_message"
    by (simp add: win_message_def)
  show "CHR 0x0A # rule40 \<noteq> ''NEW GAME ROUND''"
    by simp
qed

lemma round_banner_count:
  "count_list round_banner win_message = 0" "count_list round_banner ''NEW GAME ROUND'' = 1"
  using rule40_not_marks by (simp_all add: round_banner_def win_message_def)

lemma play_round_cases:
  assumes "play_round int_of st r stdin = (out, Inr (st', rest))"
  obtains secret gout g where
    "generate_random_number st r = Inr (st, secret)"
    "get_user_guess int_of st stdin = (gout, Inr (st, g, rest))"
    "min_range st \<le> g" "g \<le> max_range st"
    "out = round_banner @ [secret_message st] @ gout @
             [if g = secret then win_message else loose_message secret]"
    "st' = (if g = secret then st\<lparr>wins := wins st + 1, total_games := total_games st + 1\<rparr>
            else st\<lparr>total_games := total_games st + 1\<rparr>)"
proof -
  from assms obtain st1 secret where gen: "generate_random_number st r = Inr (st1, secret)"
    by (auto simp: play_round_def split: sum.splits)
  then have st1: "st1 = st"
    by (auto simp: generate_random_number_def Let_def split: if_splits)
  from assms gen st1 obtain gout st2 g where
    gug: "get_user_guess int_of st stdin = (gout, Inr (st2, g, rest))"
    by (auto simp: play_round_def check_guess_def split: sum.splits prod.splits bool.splits)
  then have "snd (get_user_guess int_of st stdin) = Inr (st2, g, rest)" by simp
  from get_user_guess_result [OF this]
  have st2: "st2 = st" and rng: "min_range st \<le> g" "g \<le> max_range st" by simp_all
  from assms gen st1 gug st2 have
    o: "out = round_banner @ [secret_message st] @ gout @
             [if g = secret then win_message else loose_message secret]"
    and s: "st' = (if g = secret then st\<lparr>wins := wins st + 1, total_games := total_games st + 1\<rparr>
            else st\<lparr>total_games := total_games st + 1\<rparr>)"
    by (auto simp: play_round_def check_guess_def)
  from gen st1 have g1: "generate_random_number st r = Inr (st, secret)" by simp
  from gug st2 have g2: "get_user_guess int_of st stdin = (gout, Inr (st, g, rest))" by simp
  show thesis by (rule that [OF g1 g2 rng o s])
qed

lemma play_round_effect:
  assumes "play_round int_of st r stdin = (out, Inr (st', rest))"
  shows "min_range st' = min_range st \<and> max_range st' = max_range st
       \<and> total_games st' = total_games st + 1
       \<and> wins st' = wins st + int (count_list out win_message)
       \<and> count_list out win_message \<le> 1
       \<and> count_list out ''NEW GAME ROUND'' = 1"
proof -
  from assms obtain secret gout g where
    gug: "get_user_guess int_of st stdin = (gout, Inr (st, g, rest))"
    and out: "out = round_banner @ [secret_message st] @ gout @
             [if g = secret then win_message else loose_message secret]"
    and st': "st' = (if g = secret then st\<lparr>wins := wins st + 1, total_games := total_games st + 1\<rparr>
            else st\<lparr>total_games := total_games st + 1\<rparr>)"
    by (rule play_round_cases)
  have g1: "count_list gout win_message = 0"
    using get_user_guess_out [of win_message st int_of stdin] guess_lines_not_marks gug
    by (metis fst_conv)
  have g2: "count_list gout ''NEW GAME ROUND'' = 0"
    using get_user_guess_out [of "''NEW GAME ROUND''" st int_of stdin] guess_lines_not_marks gug
    by (metis fst_conv)
  from out st' g1 g2 round_banner_count guess_lines_not_marks show ?thesis
    by simp
qed


lemma statistics_count:
  "count_list (fst (display_statistics st)) win_message = 0"
  "count_list (fst (display_statistics st)) ''NEW GAME ROUND'' = 0"
  using rule40_not_marks
  by (simp_all add: display_statistics_def statistics_head_def win_message_def
      split: sum.splits)

lemma display_statistics_frame:
  "snd (display_statistics st) = Inr st' \<Longrightarrow> st' = st"
  by (auto simp: display_statistics_def split: if_splits sum.splits)

lemma menu_text_count:
  "count_list menu_text win_message = 0" "count_list menu_text ''NEW GAME ROUND'' = 0"
  using rule40_not_marks by (simp_all add: menu_text_def win_message_def)

lemma show_menu_effect:
  "show_menu int_of rng k st stdin = (out, Inr st') \<Longrightarrow>
   min_range st' = min_range st \<and> max_range st' = max_range st
   \<and> total_games st' = total_games st + int (count_list out ''NEW GAME ROUND'')
   \<and> wins st' = wins st + int (count_list out win_message)
   \<and> count_list out win_message \<le> count_list out ''NEW GAME ROUND''"
proof (induction int_of rng k st stdin arbitrary: out rule: show_menu.induct)
  case (1 int_of rng k st)
  then show ?case by simp
next
  case (2 int_of rng k st line stdin)
  consider (play) "strip line = ''1''" | (stats) "strip line = ''2''" | (exit) "strip line = ''3''"
    | (other) "strip line \<noteq> ''1''" "strip line \<noteq> ''2''" "strip line \<noteq> ''3''"
    by blast
  then show ?case
  proof cases
    case play
    obtain o1 r1 where p1: "play_round int_of st (rng k) stdin = (o1, r1)"
      by (cases "play_round int_of st (rng k) stdin")
    with play "2.prems" obtain st1 rest where r1: "r1 = Inr (st1, rest)"
      by (cases r1) auto
    obtain o2 r2 where p2: "show_menu int_of rng (k + 1) st1 rest = (o2, r2)"
      by (cases "show_menu int_of rng (k + 1) st1 rest")
    from play "2.prems" p1 r1 p2 have out: "out = menu_text @ o1 @ o2" and r2: "r2 = Inr st'"
      by (simp_all add: after_def)
    from p1 r1 have one: "play_round int_of st (rng k) stdin = (o1, Inr (st1, rest))" by simp
    from p2 r2 have more: "show_menu int_of rng (k + 1) st1 rest = (o2, Inr st')" by simp
    from "2.IH"(1) [OF refl play one [symmetric] refl refl more] play_round_effect [OF one] out
      menu_text_count
    show ?thesis by simp
  next
    case stats
    obtain o1 r1 where p1: "display_statistics st = (o1, r1)"
      by (cases "display_statistics st")
    with stats "2.prems" obtain st1 where r1: "r1 = Inr st1"
      by (cases r1) auto
    obtain o2 r2 where p2: "show_menu int_of rng k st1 stdin = (o2, r2)"
      by (cases "show_menu int_of rng k st1 stdin")
    from stats "2.prems" p1 r1 p2 have out: "out = menu_text @ o1 @ o2" and r2: "r2 = Inr st'"
      by (simp_all add: after_def)
    from p1 r1 have one: "display_statistics st = (o1, Inr st1)" by simp
    from p2 r2 have more: "show_menu int_of rng k st1 stdin = (o2, Inr st')" by simp
    from one have st1: "st1 = st" using display_statistics_frame [of st st1] by simp
    from one statistics_count [of st] have c: "count_list o1 win_message = 0"
      "count_list o1 ''NEW GAME ROUND'' = 0" by simp_all
    from stats have n1: "strip line \<noteq> ''1''" by simp
    from "2.IH"(2) [OF refl n1 stats one [symmetric] refl more] st1 out c menu_text_count
    show ?thesis by simp
  next
    case exit
    with "2.prems" menu_text_count show ?thesis
      by (auto simp: win_message_def)
  next
    case other
    obtain o2 r2 where p2: "show_menu int_of rng k st stdin = (o2, r2)"
      by (cases "show_menu int_of rng k st stdin")
    from other "2.prems" p2
    have out: "out = menu_text @ [''Invalid choice! Please enter 1, 2, or 3.''] @ o2"
      and r2: "r2 = Inr st'"
      by (simp_all add: after_def)
    from p2 r2 have more: "show_menu int_of rng k st stdin = (o2, Inr st')" by simp
    from "2.IH"(3) [OF refl other more] out menu_text_count show ?thesis
      by (simp add: win_message_def)
  qed
qed

lemmas float_eval = truediv_def round_to_double_def floor_log2_def round_scaled_def
  round_half_even_def compute_bitlen Let_def

text \<open>
  C5. For a guess \<open>g\<close> within the bounds, \<open>check_guess\<close> answers True when the secret is
  \<open>g\<close> and False for every other secret.
\<close>

theorem check_guess_exact:
  "min_range st \<le> g \<Longrightarrow> g \<le> max_range st \<Longrightarrow>
   snd (check_guess st g g) \<and> (\<forall>s. s \<noteq> g \<longrightarrow> \<not> snd (check_guess st g s))"
  by (simp add: check_guess_def)

theorem check_guess_exact_witness:
  "min_range GuessingGame_init \<le> 3 \<and> 3 \<le> max_range GuessingGame_init
   \<and> snd (check_guess GuessingGame_init 3 3) \<and> \<not> snd (check_guess GuessingGame_init 3 4)"
proof -
  have h1: "min_range GuessingGame_init \<le> 3" and h2: "3 \<le> max_range GuessingGame_init"
    by (simp_all add: GuessingGame_init_def)
  from check_guess_exact [OF h1 h2] h1 h2 show ?thesis by simp
qed

text \<open>
  C8. Whatever the generator draws, a value that \<open>generate_random_number\<close> returns lies
  between \<open>min_range\<close> and \<open>max_range\<close> inclusive. It returns whenever the range is not
  empty (else \<open>random.randint\<close> raises), so it always does for the bounds 1 and 5, which
  are those of every state the program reaches.
\<close>

theorem generate_random_number_in_range:
  "(generate_random_number st r = Inr (st', v) \<longrightarrow> min_range st \<le> v \<and> v \<le> max_range st)
   \<and> (min_range st \<le> max_range st \<longrightarrow> (\<exists>v. generate_random_number st r = Inr (st, v)))
   \<and> (\<exists>v. generate_random_number GuessingGame_init r = Inr (GuessingGame_init, v)
          \<and> 1 \<le> v \<and> v \<le> 5)"
proof -
  let ?width = "max_range st - min_range st + 1"
  have a: "min_range st \<le> v \<and> v \<le> max_range st"
    if "generate_random_number st r = Inr (st', v)"
  proof -
    from that have pos: "0 < ?width" and v: "v = min_range st + int (r mod nat ?width)"
      by (auto simp: generate_random_number_def Let_def split: if_splits)
    from pos have "r mod nat ?width < nat ?width" by simp
    with pos have "int (r mod nat ?width) < ?width" by linarith
    with v show ?thesis by simp
  qed
  have b: "\<exists>v. generate_random_number st r = Inr (st, v)" if "min_range st \<le> max_range st"
    using that by (simp add: generate_random_number_def Let_def)
  have "r mod 5 < 5" by simp
  then have c: "\<exists>v. generate_random_number GuessingGame_init r = Inr (GuessingGame_init, v)
          \<and> 1 \<le> v \<and> v \<le> 5"
    by (simp add: generate_random_number_def GuessingGame_init_def)
  from a b c show ?thesis by blast
qed

theorem generate_random_number_in_range_witness:
  "generate_random_number GuessingGame_init 7 = Inr (GuessingGame_init, 3)
   \<and> min_range GuessingGame_init \<le> 3 \<and> 3 \<le> max_range GuessingGame_init
   \<and> min_range GuessingGame_init \<le> max_range GuessingGame_init"
proof -
  have g: "generate_random_number GuessingGame_init 7 = Inr (GuessingGame_init, 3)"
    by (simp add: generate_random_number_def GuessingGame_init_def)
  have h: "min_range GuessingGame_init \<le> max_range GuessingGame_init"
    by (simp add: GuessingGame_init_def)
  from generate_random_number_in_range [of GuessingGame_init 7 GuessingGame_init 3] g h
  show ?thesis by blast
qed

text \<open>
  C6. When \<open>get_user_guess\<close> returns, the guess lies within the bounds. A line that is
  no integer is answered by the prompt again after \<open>invalid_message\<close>, an integer out
  of range by the prompt again after \<open>range_message\<close>, and the two messages differ. The
  call never ends in \<open>ValueError\<close>: it ends in an exception only when standard input
  runs out before a valid line, and that exception is \<open>EOFError\<close>.
\<close>

theorem get_user_guess_validates:
  "(snd (get_user_guess int_of st stdin) = Inr (st', g, rest) \<longrightarrow>
      min_range st \<le> g \<and> g \<le> max_range st)
   \<and> (int_of line = None \<longrightarrow>
        get_user_guess int_of st (line # stdin) =
          after [guess_prompt st, invalid_message] (get_user_guess int_of st stdin))
   \<and> (int_of line = Some n \<and> \<not> (min_range st \<le> n \<and> n \<le> max_range st) \<longrightarrow>
        get_user_guess int_of st (line # stdin) =
          after [guess_prompt st, range_message st] (get_user_guess int_of st stdin))
   \<and> range_message st \<noteq> invalid_message
   \<and> (snd (get_user_guess int_of st stdin) = Inl e \<longrightarrow>
        e = EOFError \<and>
        (\<forall>l \<in> set stdin. \<forall>n. int_of l = Some n \<longrightarrow> \<not> (min_range st \<le> n \<and> n \<le> max_range st)))"
proof -
  have "range_message st \<noteq> invalid_message"
    by (simp add: range_message_def invalid_message_def)
  then show ?thesis
    using get_user_guess_result [of int_of st stdin st' g rest]
      get_user_guess_error [of int_of st stdin e]
    by auto
qed

theorem get_user_guess_validates_witness:
  "get_user_guess decimal_int GuessingGame_init [''abc'', ''9'', ''3'', ''4''] =
     ([''Enter your guess (1-5): '', ''Invalid input! Please enter a valid number.'',
       ''Enter your guess (1-5): '', ''Enter a number between 1 and 5.'',
       ''Enter your guess (1-5): ''],
      Inr (GuessingGame_init, 3, [''4'']))
   \<and> decimal_int ''abc'' = None \<and> decimal_int ''9'' = Some 9
   \<and> snd (get_user_guess decimal_int GuessingGame_init [''abc'', ''9'']) = Inl EOFError"
proof -
  have a: "decimal_int ''abc'' = None"
    and b: "decimal_int ''9'' = Some 9" and c: "decimal_int ''3'' = Some 3"
    by (simp_all add: decimal_int_def)
  have r: "\<not> (min_range GuessingGame_init \<le> 9 \<and> 9 \<le> max_range GuessingGame_init)"
    by (simp add: GuessingGame_init_def)
  have v: "get_user_guess decimal_int GuessingGame_init [''3'', ''4''] =
      ([guess_prompt GuessingGame_init], Inr (GuessingGame_init, 3, [''4'']))"
    by (simp add: c GuessingGame_init_def)
  have e: "snd (get_user_guess decimal_int GuessingGame_init [''abc'', ''9'']) = Inl EOFError"
    by (simp add: a b after_def GuessingGame_init_def)
  have p: "guess_prompt GuessingGame_init = ''Enter your guess (1-5): ''"
    "range_message GuessingGame_init = ''Enter a number between 1 and 5.''"
    "invalid_message = ''Invalid input! Please enter a valid number.''"
    by (simp_all add: guess_prompt_def range_message_def invalid_message_def GuessingGame_init_def
        str_int_def digits_of.simps digit_char_def)
  from get_user_guess_validates
    [of decimal_int GuessingGame_init "[''3'', ''4'']" _ _ _ "''9''" 9 EOFError] b r
  have s1: "get_user_guess decimal_int GuessingGame_init [''9'', ''3'', ''4''] =
      after [guess_prompt GuessingGame_init, range_message GuessingGame_init]
        (get_user_guess decimal_int GuessingGame_init [''3'', ''4''])"
    by blast
  from get_user_guess_validates
    [of decimal_int GuessingGame_init "[''9'', ''3'', ''4'']" _ _ _ "''abc''" _ EOFError] a
  have s2: "get_user_guess decimal_int GuessingGame_init [''abc'', ''9'', ''3'', ''4''] =
      after [guess_prompt GuessingGame_init, invalid_message]
        (get_user_guess decimal_int GuessingGame_init [''9'', ''3'', ''4''])"
    by blast
  from s2 s1 v p a b e show ?thesis by (simp add: after_def)
qed



text \<open>
  C9. No operation but \<open>play_round\<close> changes the state: \<open>generate_random_number\<close>,
  \<open>get_user_guess\<close>, \<open>check_guess\<close> and \<open>display_statistics\<close> return it as it was; the
  menu branches for the choices 2, 3 and for an invalid choice go on, or end, with the
  same state; a whole menu session leaves the bounds alone, and the counters too when it
  played no round.
\<close>

theorem only_play_round_mutates:
  "(generate_random_number st r = Inr (st1, v) \<longrightarrow> st1 = st)
   \<and> (snd (get_user_guess int_of st stdin) = Inr (st2, g, rest) \<longrightarrow> st2 = st)
   \<and> fst (check_guess st a b) = st
   \<and> (snd (display_statistics st) = Inr st3 \<longrightarrow> st3 = st)
   \<and> (strip line = ''2'' \<longrightarrow>
        show_menu int_of rng k st (line # stdin) =
          (case snd (display_statistics st) of
             Inl e \<Rightarrow> (menu_text @ fst (display_statistics st), Inl e)
           | Inr _ \<Rightarrow> after (menu_text @ fst (display_statistics st))
                        (show_menu int_of rng k st stdin)))
   \<and> (strip line = ''3'' \<longrightarrow>
        show_menu int_of rng k st (line # stdin) =
          (menu_text @ [''Thanks for playing! Goodbye!''], Inr st))
   \<and> (strip line \<notin> {''1'', ''2'', ''3''} \<longrightarrow>
        show_menu int_of rng k st (line # stdin) =
          after (menu_text @ [''Invalid choice! Please enter 1, 2, or 3.''])
            (show_menu int_of rng k st stdin))
   \<and> (snd (show_menu int_of rng k st stdin) = Inr st4 \<longrightarrow>
        min_range st4 = min_range st \<and> max_range st4 = max_range st
        \<and> (count_list (fst (show_menu int_of rng k st stdin)) ''NEW GAME ROUND'' = 0 \<longrightarrow> st4 = st))"
proof -
  have a: "st1 = st" if "generate_random_number st r = Inr (st1, v)"
    using that by (auto simp: generate_random_number_def Let_def split: if_splits)
  have b: "st2 = st" if "snd (get_user_guess int_of st stdin) = Inr (st2, g, rest)"
    using get_user_guess_result [OF that] by simp
  have c: "fst (check_guess st a b) = st"
    by (simp add: check_guess_def)
  have d: "st3 = st" if "snd (display_statistics st) = Inr st3" for st3
    using that by (rule display_statistics_frame)
  have e: "show_menu int_of rng k st (line # stdin) =
          (case snd (display_statistics st) of
             Inl e \<Rightarrow> (menu_text @ fst (display_statistics st), Inl e)
           | Inr _ \<Rightarrow> after (menu_text @ fst (display_statistics st))
                        (show_menu int_of rng k st stdin))"
    if "strip line = ''2''"
    using that d by (auto split: prod.splits sum.splits)
  have f: "show_menu int_of rng k st (line # stdin) =
          (menu_text @ [''Thanks for playing! Goodbye!''], Inr st)"
    if "strip line = ''3''"
    using that by simp
  have g: "show_menu int_of rng k st (line # stdin) =
          after (menu_text @ [''Invalid choice! Please enter 1, 2, or 3.''])
            (show_menu int_of rng k st stdin)"
    if "strip line \<notin> {''1'', ''2'', ''3''}"
    using that by simp
  have h: "min_range st4 = min_range st \<and> max_range st4 = max_range st
        \<and> (count_list (fst (show_menu int_of rng k st stdin)) ''NEW GAME ROUND'' = 0 \<longrightarrow> st4 = st)"
    if "snd (show_menu int_of rng k st stdin) = Inr st4"
  proof -
    from that have "show_menu int_of rng k st stdin =
        (fst (show_menu int_of rng k st stdin), Inr st4)"
      by (metis prod.collapse)
    from show_menu_effect [OF this] show ?thesis by simp
  qed
  from a b c d e f g h show ?thesis by blast
qed

theorem only_play_round_mutates_witness:
  "generate_random_number example_state 7 = Inr (example_state, 3)
   \<and> snd (get_user_guess decimal_int example_state [''3'']) = Inr (example_state, 3, [])
   \<and> snd (display_statistics example_state) = Inr example_state
   \<and> strip '' 2'' = ''2'' \<and> strip ''3 '' = ''3'' \<and> strip ''x'' \<notin> {''1'', ''2'', ''3''}
   \<and> show_menu decimal_int (\<lambda>k. 0) 0 example_state [''3 ''] =
        (menu_text @ [''Thanks for playing! Goodbye!''], Inr example_state)
   \<and> snd (show_menu decimal_int (\<lambda>k. 0) 0 example_state [''x'', '' 2'', ''3 '']) = Inr example_state
   \<and> count_list (fst (show_menu decimal_int (\<lambda>k. 0) 0 example_state [''x'', '' 2'', ''3 '']))
        ''NEW GAME ROUND'' = 0"
proof -
  have s: "strip '' 2'' = ''2''" "strip ''3 '' = ''3''" "strip ''x'' \<notin> {''1'', ''2'', ''3''}"
    by (simp_all add: strip_def isspace_def)
  have h1: "generate_random_number example_state 7 = Inr (example_state, 3)"
    by (simp add: generate_random_number_def example_state_def)
  have h2: "snd (get_user_guess decimal_int example_state [''3'']) = Inr (example_state, 3, [])"
    by (simp add: decimal_int_def example_state_def)
  have h3: "snd (display_statistics example_state) = Inr example_state"
    by (simp add: example_state_def display_statistics_def win_percentage_def float_eval)
  from only_play_round_mutates [where st = example_state and line = "''3 ''" and int_of = decimal_int
      and rng = "\<lambda>k. 0" and k = 0 and stdin = "[]"] s
  have m3: "show_menu decimal_int (\<lambda>k. 0) 0 example_state [''3 ''] =
        (menu_text @ [''Thanks for playing! Goodbye!''], Inr example_state)"
    by blast
  from only_play_round_mutates [where st = example_state and line = "'' 2''" and int_of = decimal_int
      and rng = "\<lambda>k. 0" and k = 0 and stdin = "[''3 '']"] s h3
  have m2: "show_menu decimal_int (\<lambda>k. 0) 0 example_state ['' 2'', ''3 ''] =
        after (menu_text @ fst (display_statistics example_state))
          (show_menu decimal_int (\<lambda>k. 0) 0 example_state [''3 ''])"
    by simp
  from only_play_round_mutates [where st = example_state and line = "''x''" and int_of = decimal_int
      and rng = "\<lambda>k. 0" and k = 0 and stdin = "['' 2'', ''3 '']"] s
  have mx: "show_menu decimal_int (\<lambda>k. 0) 0 example_state [''x'', '' 2'', ''3 ''] =
        after (menu_text @ [''Invalid choice! Please enter 1, 2, or 3.''])
          (show_menu decimal_int (\<lambda>k. 0) 0 example_state ['' 2'', ''3 ''])"
    by blast
  from mx m2 m3
  have r: "snd (show_menu decimal_int (\<lambda>k. 0) 0 example_state [''x'', '' 2'', ''3 '']) = Inr example_state"
    by (simp add: after_def)
  have n: "count_list (fst (show_menu decimal_int (\<lambda>k. 0) 0 example_state [''x'', '' 2'', ''3 '']))
        ''NEW GAME ROUND'' = 0"
    using mx m2 m3 statistics_count (2) [of example_state] menu_text_count
    by (simp add: after_def)
  from s h1 h2 h3 m3 r n show ?thesis by simp
qed

section \<open>The statistics: properties\<close>

lemma pow2_pos: "0 < pow2 e"
  by (simp add: pow2_def)

lemma pow2_step: "a \<le> b \<Longrightarrow> pow2 b = pow2 a * 2 ^ nat (b - a)"
proof -
  assume ab: "a \<le> b"
  consider "0 \<le> a" | "a < 0" "0 \<le> b" | "b < 0" by linarith
  then show ?thesis
  proof cases
    case 1
    with ab have "nat b = nat a + nat (b - a)" by simp
    with 1 ab show ?thesis by (simp add: pow2_def power_add)
  next
    case 2
    then have "nat (b - a) = nat b + nat (- a)" by simp
    with 2 show ?thesis by (simp add: pow2_def power_add)
  next
    case 3
    with ab have "nat (- a) = nat (- b) + nat (b - a)" by simp
    with 3 ab show ?thesis by (simp add: pow2_def power_add)
  qed
qed

lemma pow2_mono: "a \<le> b \<Longrightarrow> pow2 a \<le> pow2 b"
proof -
  assume ab: "a \<le> b"
  have "(1::rat) \<le> 2 ^ nat (b - a)" by simp
  with pow2_step [OF ab] pow2_pos [of a] show ?thesis
    by (metis mult.right_neutral mult_le_cancel_left_pos)
qed

lemma pow2_half: "pow2 (e - 1) = pow2 e / 2"
  using pow2_step [of "e - 1" e] by simp

lemma round_half_even_near:
  assumes "0 < d"
  shows "\<bar>of_nat (round_half_even n d) - (of_nat n / of_nat d :: rat)\<bar> \<le> 1 / 2"
proof -
  let ?q = "n div d" and ?r = "n mod d"
  have n: "(of_nat n :: rat) = of_nat ?q * of_nat d + of_nat ?r"
    by (metis div_mult_mod_eq of_nat_add of_nat_mult)
  from assms have d: "(0::rat) < of_nat d" by simp
  have frac: "(of_nat n / of_nat d :: rat) = of_nat ?q + of_nat ?r / of_nat d"
    using d by (simp add: n add_divide_distrib)
  from assms have rd: "?r < d" by simp
  consider (lo) "2 * ?r < d" | (hi) "d < 2 * ?r" | (tie) "2 * ?r = d" by linarith
  then show ?thesis
  proof cases
    case lo
    then have "(2::rat) * of_nat ?r < of_nat d" by (metis of_nat_less_iff of_nat_mult of_nat_numeral)
    then have "(of_nat ?r / of_nat d :: rat) < 1 / 2" using d by (simp add: field_simps)
    moreover have "(0::rat) \<le> of_nat ?r / of_nat d" by simp
    ultimately show ?thesis using lo by (simp add: round_half_even_def Let_def frac)
  next
    case hi
    then have "(of_nat d :: rat) < 2 * of_nat ?r" by (metis of_nat_less_iff of_nat_mult of_nat_numeral)
    then have "(1 / 2 :: rat) < of_nat ?r / of_nat d" using d by (simp add: field_simps)
    moreover from rd have "(of_nat ?r / of_nat d :: rat) < 1" using d by simp
    ultimately show ?thesis using hi by (simp add: round_half_even_def Let_def frac)
  next
    case tie
    then have "(2::rat) * of_nat ?r = of_nat d" by (metis of_nat_mult of_nat_numeral)
    then have h: "(of_nat ?r / of_nat d :: rat) = 1 / 2" using d by (simp add: field_simps)
    show ?thesis using tie by (simp add: round_half_even_def Let_def frac h)
  qed
qed

lemma round_scaled_near:
  assumes "0 < d"
  shows "\<bar>of_nat (round_scaled n d e) - (of_nat n / of_nat d) / pow2 e\<bar> \<le> 1 / 2"
proof (cases "0 \<le> e")
  case True
  from assms have "0 < d * 2 ^ nat e" by simp
  from round_half_even_near [OF this, of n] True show ?thesis
    by (simp add: round_scaled_def pow2_def)
next
  case False
  from round_half_even_near [OF assms, of "n * 2 ^ nat (- e)"] False show ?thesis
    by (simp add: round_scaled_def pow2_def)
qed

lemma floor_log2_less:
  assumes n: "0 < n" and d: "0 < d" and lt: "n < 2 ^ j * d"
  shows "floor_log2 n d < int j"
proof -
  let ?bn = "bitlen (int n)" and ?bd = "bitlen (int d)"
  let ?k = "?bn - ?bd"
  from n have bn: "2 ^ nat (?bn - 1) \<le> int n" "int n < 2 ^ nat ?bn"
    using bitlen_bounds [of "int n"] by simp_all
  from d have bd: "2 ^ nat (?bd - 1) \<le> int d" "int d < 2 ^ nat ?bd"
    using bitlen_bounds [of "int d"] by simp_all
  from n have bn1: "1 \<le> ?bn" by (simp add: bitlen_alt_def)
  from d have bd1: "1 \<le> ?bd" by (simp add: bitlen_alt_def)
  have kj: "?k \<le> int j"
  proof -
    from lt have "int n < 2 ^ j * int d"
      by (metis of_nat_less_iff of_nat_mult of_nat_numeral of_nat_power)
    also from bd(2) have "\<dots> < 2 ^ j * 2 ^ nat ?bd" by simp
    finally have "int n < 2 ^ (j + nat ?bd)" by (simp add: power_add)
    with bn(1) have "(2::int) ^ nat (?bn - 1) < 2 ^ (j + nat ?bd)" by linarith
    then have "nat (?bn - 1) < j + nat ?bd" by simp
    with bn1 bd1 show ?thesis by linarith
  qed
  have kl: "?k < int j" if "0 \<le> ?k" "d * 2 ^ nat ?k \<le> n"
  proof -
    from that(2) lt have "d * 2 ^ nat ?k < 2 ^ j * d" by linarith
    then have "d * 2 ^ nat ?k < d * 2 ^ j" by (simp only: mult.commute)
    with d have "(2::nat) ^ nat ?k < 2 ^ j" by (metis mult_less_cancel1)
    then have "nat ?k < j" by simp
    with that(1) show ?thesis by linarith
  qed
  show ?thesis
  proof (cases "0 \<le> ?k")
    case True
    with kl kj show ?thesis
      by (auto simp: floor_log2_def Let_def)
  next
    case False
    then show ?thesis
      by (auto simp: floor_log2_def Let_def)
  qed
qed

lemma round_to_double_near:
  assumes d: "0 < d" and lt: "n < 2 ^ j * d" and j: "j < 1024"
  shows "\<exists>m e. round_to_double n d = Some (m, e)
     \<and> \<bar>of_nat m * pow2 e - (of_nat n / of_nat d)\<bar> \<le> pow2 (int j - 54)"
proof (cases "n = 0")
  case True
  then show ?thesis using pow2_pos [of "int j - 54"] by (simp add: round_to_double_def)
next
  case False
  then have n: "0 < n" by simp
  define e where "e = max (floor_log2 n d - 52) (- 1074)"
  define m where "m = round_scaled n d e"
  from floor_log2_less [OF n d lt] have e: "e \<le> int j - 53" by (simp add: e_def)
  with j have "e < 971" by linarith
  then have ok: "\<not> (971 < e \<or> (e = 971 \<and> m = 2 ^ 53))" by linarith
  with False have r: "round_to_double n d = Some (m, e)"
    unfolding round_to_double_def Let_def e_def [symmetric] m_def [symmetric] by simp
  have "\<bar>of_nat m - (of_nat n / of_nat d) / pow2 e\<bar> \<le> 1 / 2"
    unfolding m_def by (rule round_scaled_near [OF d])
  then have "\<bar>of_nat m - (of_nat n / of_nat d) / pow2 e\<bar> * pow2 e \<le> 1 / 2 * pow2 e"
    using pow2_pos [of e] by (simp only: mult_le_cancel_right_pos)
  moreover have "\<bar>of_nat m - (of_nat n / of_nat d) / pow2 e\<bar> * pow2 e =
      \<bar>of_nat m * pow2 e - (of_nat n / of_nat d)\<bar>"
  proof -
    have "\<bar>of_nat m - (of_nat n / of_nat d) / pow2 e\<bar> * pow2 e =
        \<bar>(of_nat m - (of_nat n / of_nat d) / pow2 e) * pow2 e\<bar>"
      using pow2_pos [of e] by (simp add: abs_mult)
    also have "(of_nat m - (of_nat n / of_nat d) / pow2 e) * pow2 e =
        of_nat m * pow2 e - (of_nat n / of_nat d)"
      using pow2_pos [of e] by (simp add: field_simps)
    finally show ?thesis .
  qed
  moreover have "1 / 2 * pow2 e \<le> pow2 (int j - 54)"
  proof -
    from pow2_mono [OF e] have "pow2 e / 2 \<le> pow2 (int j - 53) / 2" by simp
    also have "\<dots> = pow2 (int j - 54)" using pow2_half [of "int j - 53"] by simp
    finally show ?thesis by simp
  qed
  ultimately have "\<bar>of_nat m * pow2 e - (of_nat n / of_nat d)\<bar> \<le> pow2 (int j - 54)"
    by linarith
  with r show ?thesis by blast
qed

lemma pow2_neg: "pow2 (- e) = 1 / pow2 e"
  by (cases "e = 0") (auto simp: pow2_def)

lemma pow2_of_nat: "pow2 (int k) = 2 ^ k"
  by (simp add: pow2_def)

lemma pow2_add: "pow2 (a + b) = pow2 a * pow2 b"
proof -
  have "pow2 (a + int k) = pow2 a * 2 ^ k" for a k
    using pow2_step [of a "a + int k"] by simp
  then have nn: "pow2 (a + b) = pow2 a * pow2 b" if "0 \<le> b" for a b
    using that by (metis pow2_of_nat nat_0_le)
  show ?thesis
  proof (cases "0 \<le> b")
    case True
    then show ?thesis by (rule nn)
  next
    case False
    then have "pow2 (a + b + (- b)) = pow2 (a + b) * pow2 (- b)" by (intro nn) simp
    then have "pow2 a = pow2 (a + b) * (1 / pow2 b)" by (simp add: pow2_neg)
    then show ?thesis using pow2_pos [of b] by (simp add: field_simps)
  qed
qed

lemma floor_log2_bounds:
  assumes n: "0 < n" and d: "0 < d"
  shows "pow2 (floor_log2 n d) \<le> of_nat n / of_nat d
       \<and> of_nat n / of_nat d < pow2 (floor_log2 n d + 1)"
proof -
  let ?bn = "bitlen (int n)" and ?bd = "bitlen (int d)"
  let ?k = "?bn - ?bd"
  let ?q = "of_nat n / of_nat d :: rat"
  from d have dq: "(0::rat) < of_nat d" by simp
  from n have bn1: "1 \<le> ?bn" by (simp add: bitlen_alt_def)
  from d have bd1: "1 \<le> ?bd" by (simp add: bitlen_alt_def)
  from n bn1 have "2 ^ nat (?bn - 1) \<le> int n" "int n < 2 ^ nat ?bn"
    using bitlen_bounds [of "int n"] by simp_all
  then have "(of_int (2 ^ nat (?bn - 1)) :: rat) \<le> of_int (int n)"
    "(of_int (int n) :: rat) < of_int (2 ^ nat ?bn)"
    by (simp_all only: of_int_le_iff of_int_less_iff)
  with bn1 have nb: "pow2 (?bn - 1) \<le> of_nat n" "of_nat n < pow2 ?bn"
    by (simp_all add: pow2_def)
  from d bd1 have "2 ^ nat (?bd - 1) \<le> int d" "int d < 2 ^ nat ?bd"
    using bitlen_bounds [of "int d"] by simp_all
  then have "(of_int (2 ^ nat (?bd - 1)) :: rat) \<le> of_int (int d)"
    "(of_int (int d) :: rat) < of_int (2 ^ nat ?bd)"
    by (simp_all only: of_int_le_iff of_int_less_iff)
  with bd1 have db: "pow2 (?bd - 1) \<le> of_nat d" "of_nat d < pow2 ?bd"
    by (simp_all add: pow2_def)
  have lo: "pow2 (?k - 1) \<le> ?q"
  proof -
    have "pow2 (?k - 1) * of_nat d \<le> pow2 (?k - 1) * pow2 ?bd"
      using db(2) pow2_pos [of "?k - 1"] by simp
    also have "\<dots> = pow2 (?bn - 1)" using pow2_add [of "?k - 1" ?bd] by simp
    also have "\<dots> \<le> of_nat n" by (rule nb(1))
    finally show ?thesis using dq by (simp add: pos_le_divide_eq)
  qed
  have hi: "?q < pow2 (?k + 1)"
  proof -
    have "of_nat n < pow2 ?bn" by (rule nb(2))
    also have "\<dots> = pow2 (?k + 1) * pow2 (?bd - 1)" using pow2_add [of "?k + 1" "?bd - 1"] by simp
    also have "\<dots> \<le> pow2 (?k + 1) * of_nat d"
      using db(1) pow2_pos [of "?k + 1"] by simp
    finally show ?thesis using dq by (simp add: pos_divide_less_eq)
  qed
  have c: "(if 0 \<le> ?k then d * 2 ^ nat ?k \<le> n else d \<le> n * 2 ^ nat (- ?k)) \<longleftrightarrow> pow2 ?k \<le> ?q"
  proof (cases "0 \<le> ?k")
    case True
    have "d * 2 ^ nat ?k \<le> n \<longleftrightarrow> (of_nat (d * 2 ^ nat ?k) :: rat) \<le> of_nat n"
      by (simp only: of_nat_le_iff)
    also have "\<dots> \<longleftrightarrow> pow2 ?k \<le> ?q"
      using True dq by (simp add: pow2_def pos_le_divide_eq mult.commute)
    finally show ?thesis using True by simp
  next
    case False
    have "d \<le> n * 2 ^ nat (- ?k) \<longleftrightarrow> (of_nat d :: rat) \<le> of_nat (n * 2 ^ nat (- ?k))"
      by (simp only: of_nat_le_iff)
    also have "\<dots> \<longleftrightarrow> pow2 ?k \<le> ?q"
      using False dq by (simp add: pow2_def field_simps)
    finally show ?thesis using False by simp
  qed
  show ?thesis
  proof (cases "pow2 ?k \<le> ?q")
    case True
    with c have "floor_log2 n d = ?k" by (simp add: floor_log2_def Let_def)
    with True hi show ?thesis by simp
  next
    case False
    with c have "floor_log2 n d = ?k - 1" by (simp add: floor_log2_def Let_def)
    with False lo show ?thesis by simp
  qed
qed

text \<open>
  What \<open>round_to_double\<close> returns is a double nearest to the quotient: a mantissa of at
  most 53 bits, of exactly 53 bits above the subnormal exponent, at an exponent within
  the range of the format, and at most half a unit in the last place away.
\<close>

lemma round_to_double_correct:
  assumes n: "0 < n" and d: "0 < d" and r: "round_to_double n d = Some (m, e)"
  shows "\<bar>of_nat m * pow2 e - of_nat n / of_nat d\<bar> \<le> pow2 e / 2
       \<and> m \<le> 2 ^ 53 \<and> - 1074 \<le> e \<and> e \<le> 971 \<and> (- 1074 < e \<longrightarrow> 2 ^ 52 \<le> m)"
proof -
  let ?fl = "floor_log2 n d"
  let ?q = "of_nat n / of_nat d :: rat"
  define x where "x = ?q / pow2 e"
  from n r have e: "e = max (?fl - 52) (- 1074)" and m: "m = round_scaled n d e"
    and top: "e \<le> 971"
    by (auto simp: round_to_double_def Let_def split: if_splits)
  from round_scaled_near [OF d, of n e] have near: "\<bar>of_nat m - x\<bar> \<le> 1 / 2"
    by (simp add: m x_def)
  have pe: "0 < pow2 e" by (rule pow2_pos)
  have "\<bar>of_nat m * pow2 e - ?q\<bar> = \<bar>(of_nat m - x) * pow2 e\<bar>"
    using pe by (simp add: x_def field_simps)
  also have "\<dots> = \<bar>of_nat m - x\<bar> * pow2 e" using pe by (simp add: abs_mult)
  also have "\<dots> \<le> 1 / 2 * pow2 e" using near pe by (simp only: mult_le_cancel_right_pos)
  finally have a: "\<bar>of_nat m * pow2 e - ?q\<bar> \<le> pow2 e / 2" by simp
  from floor_log2_bounds [OF n d] have lo: "pow2 ?fl \<le> ?q" and hi: "?q < pow2 (?fl + 1)"
    by simp_all
  have b: "m \<le> 2 ^ 53"
  proof -
    from e have "?fl + 1 \<le> e + 53" by simp
    from pow2_mono [OF this] hi have "?q < pow2 (e + 53)" by simp
    also have "\<dots> = pow2 e * 2 ^ 53" using pow2_add [of e 53] by (simp add: pow2_def)
    finally have "x < 2 ^ 53" unfolding x_def using pe by (metis mult.commute pos_divide_less_eq)
    with near have "(of_nat m :: rat) < 2 ^ 53 + 1" by linarith
    then have "(of_nat m :: rat) < of_nat (2 ^ 53 + 1)" by simp
    then have "m < 2 ^ 53 + 1" by (simp only: of_nat_less_iff)
    then show ?thesis by simp
  qed
  have c: "2 ^ 52 \<le> m" if "- 1074 < e"
  proof -
    from that e have "e + 52 = ?fl" by simp
    with lo have "pow2 (e + 52) \<le> ?q" by simp
    moreover have "pow2 (e + 52) = pow2 e * 2 ^ 52" using pow2_add [of e 52] by (simp add: pow2_def)
    ultimately have "2 ^ 52 \<le> x" unfolding x_def using pe by (metis mult.commute pos_le_divide_eq)
    with near have "(2 ^ 52 - 1 :: rat) < of_nat m" by linarith
    then have "(of_nat (2 ^ 52 - 1) :: rat) < of_nat m" by simp
    then have "2 ^ 52 - 1 < m" by (simp only: of_nat_less_iff)
    then show ?thesis by simp
  qed
  from e have "- 1074 \<le> e" by simp
  with a b c top show ?thesis by blast
qed

lemma truediv_near:
  assumes "0 \<le> w" and "w \<le> t" and "0 < t"
  shows "\<exists>m e. truediv w t = Inr (Finite False m e)
     \<and> \<bar>of_nat m * pow2 e - (of_int w / of_int t)\<bar> \<le> pow2 (- 53)"
proof -
  from assms have d: "0 < nat t" and lt: "nat w < 2 ^ 1 * nat t" by simp_all
  from round_to_double_near [OF d lt] obtain m e where
    r: "round_to_double (nat w) (nat t) = Some (m, e)"
    and b: "\<bar>of_nat m * pow2 e - (of_nat (nat w) / of_nat (nat t))\<bar> \<le> pow2 (int 1 - 54)"
    by auto
  from assms have "(of_nat (nat w) :: rat) = of_int w" "(of_nat (nat t) :: rat) = of_int t"
    by simp_all
  with b have "\<bar>of_nat m * pow2 e - (of_int w / of_int t)\<bar> \<le> pow2 (- 53)" by simp
  moreover from assms r have "truediv w t = Inr (Finite False m e)"
    by (simp add: truediv_def)
  ultimately show ?thesis by blast
qed

lemma times_100_near:
  assumes "of_nat m * pow2 e \<le> 1 + pow2 (- 53)"
  shows "\<exists>m' e'. times_100 (Finite s m e) = Finite s m' e'
     \<and> \<bar>of_nat m' * pow2 e' - 100 * (of_nat m * pow2 e)\<bar> \<le> pow2 (- 47)"
proof -
  let ?n = "100 * m * 2 ^ nat e" and ?d = "(2::nat) ^ nat (- e)"
  have d: "0 < ?d" by simp
  have q: "(of_nat ?n / of_nat ?d :: rat) = 100 * (of_nat m * pow2 e)"
    by (cases "0 \<le> e") (simp_all add: pow2_def)
  have "pow2 (- 53) \<le> 1 / 4" by (simp add: pow2_def)
  with assms have "100 * (of_nat m * pow2 e) < 128" by linarith
  with q have "(of_nat ?n / of_nat ?d :: rat) < 128" by simp
  then have "(of_nat ?n :: rat) < 128 * of_nat ?d"
    using d by (simp add: pos_divide_less_eq)
  then have "(of_nat ?n :: rat) < of_nat (2 ^ 7 * ?d)" by simp
  then have lt: "?n < 2 ^ 7 * ?d" by (simp only: of_nat_less_iff)
  from round_to_double_near [OF d lt] obtain m' e' where
    r: "round_to_double ?n ?d = Some (m', e')"
    and b: "\<bar>of_nat m' * pow2 e' - (of_nat ?n / of_nat ?d)\<bar> \<le> pow2 (int 7 - 54)"
    by auto
  from b q have "\<bar>of_nat m' * pow2 e' - 100 * (of_nat m * pow2 e)\<bar> \<le> pow2 (- 47)"
    by simp
  moreover from r have "times_100 (Finite s m e) = Finite s m' e'" by simp
  ultimately show ?thesis by blast
qed

lemma format_1f_near:
  "\<exists>y. format_1f (Finite False m e) = digits_of (y div 10) @ ''.'' @ digits_of (y mod 10)
     \<and> \<bar>of_nat y - 10 * (of_nat m * pow2 e)\<bar> \<le> 1 / 2"
proof -
  let ?y = "round_scaled (10 * m) 1 (- e)"
  have "\<bar>of_nat ?y - (of_nat (10 * m) / of_nat 1) / pow2 (- e)\<bar> \<le> 1 / 2"
    by (rule round_scaled_near) simp
  moreover have "(of_nat (10 * m) / of_nat 1) / pow2 (- e) = 10 * (of_nat m * pow2 e)"
    by (simp add: pow2_neg)
  ultimately have "\<bar>of_nat ?y - 10 * (of_nat m * pow2 e)\<bar> \<le> 1 / 2" by simp
  moreover have "format_1f (Finite False m e) =
      digits_of (?y div 10) @ ''.'' @ digits_of (?y mod 10)"
    by (simp add: Let_def)
  ultimately show ?thesis by blast
qed

lemma percentage_near:
  assumes "0 \<le> w" and "w \<le> t" and "0 < t"
  shows "\<exists>p y. truediv w t \<noteq> Inl ZeroDivisionError
     \<and> (case truediv w t of Inl e \<Rightarrow> Inl e | Inr q \<Rightarrow> Inr (times_100 q)) = Inr p
     \<and> format_1f p = digits_of (y div 10) @ ''.'' @ digits_of (y mod 10)
     \<and> \<bar>of_nat y / 10 - 100 * of_int w / of_int t\<bar> \<le> (1 / 20 + 1 / 10 ^ 13 :: rat)"
proof -
  from truediv_near [OF assms] obtain m e where
    q: "truediv w t = Inr (Finite False m e)"
    and qb: "\<bar>of_nat m * pow2 e - (of_int w / of_int t)\<bar> \<le> pow2 (- 53)"
    by blast
  from assms have "(of_int w / of_int t :: rat) \<le> 1" by simp
  with qb have "of_nat m * pow2 e \<le> 1 + pow2 (- 53)" by linarith
  from times_100_near [OF this, of False] obtain m' e' where
    p: "times_100 (Finite False m e) = Finite False m' e'"
    and pb: "\<bar>of_nat m' * pow2 e' - 100 * (of_nat m * pow2 e)\<bar> \<le> pow2 (- 47)"
    by blast
  from format_1f_near [of m' e'] obtain y where
    f: "format_1f (Finite False m' e') = digits_of (y div 10) @ ''.'' @ digits_of (y mod 10)"
    and fb: "\<bar>of_nat y - 10 * (of_nat m' * pow2 e')\<bar> \<le> 1 / 2"
    by blast
  have c1: "pow2 (- 53) \<le> 1 / 5000000000000000"
    and c2: "pow2 (- 47) \<le> 1 / 100000000000000"
    by (simp_all add: pow2_def)
  define a where "a = of_nat m * pow2 e"
  define b where "b = of_nat m' * pow2 e'"
  define x where "x = (of_int w / of_int t :: rat)"
  from qb pb fb c1 c2 have "\<bar>a - x\<bar> \<le> 1 / 5000000000000000"
    "\<bar>b - 100 * a\<bar> \<le> 1 / 100000000000000" "\<bar>of_nat y - 10 * b\<bar> \<le> 1 / 2"
    by (simp_all add: a_def b_def x_def)
  then have "\<bar>of_nat y / 10 - 100 * x\<bar> \<le> 1 / 20 + 1 / 10000000000000" by linarith
  then have bound: "\<bar>of_nat y / 10 - 100 * of_int w / of_int t\<bar> \<le> (1 / 20 + 1 / 10 ^ 13 :: rat)"
    by (simp add: x_def)
  from q p have cp: "(case truediv w t of Inl e \<Rightarrow> Inl e | Inr q \<Rightarrow> Inr (times_100 q)) =
      Inr (Finite False m' e')"
    by (simp del: times_100.simps)
  from q have nz: "truediv w t \<noteq> Inl ZeroDivisionError" by simp
  from nz cp f bound show ?thesis by blast
qed

lemma exact_tenths:
  assumes t: "0 < t" and dvd: "t dvd 1000 * w"
    and near: "\<bar>of_nat y / 10 - 100 * of_int w / of_int t\<bar> \<le> (1 / 20 + 1 / 10 ^ 13 :: rat)"
  shows "(of_nat y / 10 :: rat) = 100 * of_int w / of_int t"
proof -
  from dvd obtain k where k: "1000 * w = t * k" by (rule dvdE)
  from t have t0: "(of_int t :: rat) \<noteq> 0" by simp
  have "(of_int (1000 * w) :: rat) = of_int (t * k)" using k by simp
  then have "(1000 * of_int w :: rat) = of_int t * of_int k" by simp
  then have e: "(100 * of_int w / of_int t :: rat) = of_int k / 10"
    using t0 by (simp add: field_simps)
  from near have "\<bar>of_nat y / 10 - of_int k / 10 :: rat\<bar> \<le> 1 / 20 + 1 / 10000000000000"
    unfolding e by simp
  then have "\<bar>of_nat y - of_int k :: rat\<bar> < 1" by linarith
  then have "\<bar>of_int (int y - k) :: rat\<bar> < 1" by simp
  then have "\<bar>int y - k\<bar> < 1" by (metis of_int_1 of_int_abs of_int_less_iff)
  then have "int y = k" by linarith
  then have "(of_nat y :: rat) = of_int k" by (metis of_int_of_nat_eq)
  with e show ?thesis by simp
qed

text \<open>
  C2, as stated, fails: after one win in three games the percentage computed is the
  double nearest to 33.33333333333333, the line printed reads 33.3%, and neither is
  \<open>1 / 3 * 100\<close>.
\<close>

theorem win_percentage_exact_counterexample:
  "0 < total_games third_state
   \<and> win_percentage third_state = Inr (Finite False 4691249611844266 (- 47))
   \<and> float_value (Finite False 4691249611844266 (- 47)) \<noteq> Some (1 / 3 * 100)
   \<and> display_statistics third_state =
        (statistics_head third_state @ [''Win percentage: 33.3%''], Inr third_state)
   \<and> (333 / 10 :: rat) \<noteq> 1 / 3 * 100"
proof -
  have w: "win_percentage third_state = Inr (Finite False 4691249611844266 (- 47))"
    by (simp add: third_state_def win_percentage_def float_eval)
  have f: "format_1f (Finite False 4691249611844266 (- 47)) = ''33.3''"
    by (simp add: round_scaled_def round_half_even_def Let_def digits_of.simps digit_char_def)
  have d: "display_statistics third_state =
        (statistics_head third_state @ [''Win percentage: 33.3%''], Inr third_state)"
    unfolding display_statistics_def w using f by (simp add: third_state_def)
  have v: "float_value (Finite False 4691249611844266 (- 47)) \<noteq> Some (1 / 3 * 100)"
    by (simp add: pow2_def)
  from w d v show ?thesis by (simp add: third_state_def)
qed

text \<open>
  C2, amended. In a state with \<open>0 \<le> wins \<le> total_games\<close> and \<open>total_games > 0\<close>,
  \<open>display_statistics\<close> prints the double \<open>(wins / total_games) * 100\<close> rounded to one
  decimal place: the figure printed differs from \<open>wins / total_games * 100\<close> by at most
  0.05 and the error of the two double operations, which is below \<open>10\<^sup>-\<^sup>1\<^sup>3\<close>; it equals
  it when that value has at most one decimal place. With \<open>total_games = 0\<close> the line
  printed is the literal \<open>0%\<close>, and no state makes the call end in
  \<open>ZeroDivisionError\<close>.
\<close>

theorem win_percentage_rounded:
  "(0 \<le> wins st \<and> wins st \<le> total_games st \<and> 0 < total_games st \<longrightarrow>
      (\<exists>y. display_statistics st =
             (statistics_head st @
                [''Win percentage: '' @ digits_of (y div 10) @ ''.'' @ digits_of (y mod 10) @ ''%''],
              Inr st)
         \<and> \<bar>of_nat y / 10 - 100 * of_int (wins st) / of_int (total_games st)\<bar>
              \<le> (1 / 20 + 1 / 10 ^ 13 :: rat)
         \<and> (total_games st dvd 1000 * wins st \<longrightarrow>
              (of_nat y / 10 :: rat) = 100 * of_int (wins st) / of_int (total_games st))))
   \<and> (total_games st \<le> 0 \<longrightarrow>
        display_statistics st = (statistics_head st @ [''Win percentage: 0%''], Inr st))
   \<and> snd (display_statistics st) \<noteq> Inl ZeroDivisionError"
proof -
  have a: "\<exists>y. display_statistics st =
             (statistics_head st @
                [''Win percentage: '' @ digits_of (y div 10) @ ''.'' @ digits_of (y mod 10) @ ''%''],
              Inr st)
         \<and> \<bar>of_nat y / 10 - 100 * of_int (wins st) / of_int (total_games st)\<bar>
              \<le> (1 / 20 + 1 / 10 ^ 13 :: rat)
         \<and> (total_games st dvd 1000 * wins st \<longrightarrow>
              (of_nat y / 10 :: rat) = 100 * of_int (wins st) / of_int (total_games st))"
    if h: "0 \<le> wins st \<and> wins st \<le> total_games st \<and> 0 < total_games st"
  proof -
    from h percentage_near [of "wins st" "total_games st"] obtain p y where
      p: "win_percentage st = Inr p"
      and f: "format_1f p = digits_of (y div 10) @ ''.'' @ digits_of (y mod 10)"
      and b: "\<bar>of_nat y / 10 - 100 * of_int (wins st) / of_int (total_games st)\<bar>
              \<le> (1 / 20 + 1 / 10 ^ 13 :: rat)"
      unfolding win_percentage_def by blast
    from h p f have "display_statistics st =
             (statistics_head st @
                [''Win percentage: '' @ digits_of (y div 10) @ ''.'' @ digits_of (y mod 10) @ ''%''],
              Inr st)"
      by (simp add: display_statistics_def)
    moreover from h b have "total_games st dvd 1000 * wins st \<longrightarrow>
        (of_nat y / 10 :: rat) = 100 * of_int (wins st) / of_int (total_games st)"
      using exact_tenths [of "total_games st" "wins st" y] by blast
    ultimately show ?thesis using b by blast
  qed
  have b: "display_statistics st = (statistics_head st @ [''Win percentage: 0%''], Inr st)"
    if "total_games st \<le> 0"
    using that by (simp add: display_statistics_def)
  have c: "snd (display_statistics st) \<noteq> Inl ZeroDivisionError"
    by (auto simp: display_statistics_def win_percentage_def truediv_def
        split: sum.splits option.splits)
  from a b c show ?thesis by blast
qed

theorem win_percentage_rounded_witness:
  "0 \<le> wins third_state \<and> wins third_state \<le> total_games third_state
   \<and> 0 < total_games third_state
   \<and> display_statistics third_state =
        (statistics_head third_state @ [''Win percentage: 33.3%''], Inr third_state)
   \<and> \<bar>333 / 10 - 100 * 1 / 3\<bar> \<le> (1 / 20 + 1 / 10 ^ 13 :: rat)
   \<and> total_games GuessingGame_init \<le> 0
   \<and> display_statistics GuessingGame_init =
        (statistics_head GuessingGame_init @ [''Win percentage: 0%''], Inr GuessingGame_init)
   \<and> snd (display_statistics third_state) \<noteq> Inl ZeroDivisionError"
proof -
  have h: "0 \<le> wins third_state \<and> wins third_state \<le> total_games third_state
      \<and> 0 < total_games third_state"
    by (simp add: third_state_def)
  have z: "total_games GuessingGame_init \<le> 0" by (simp add: GuessingGame_init_def)
  have w: "win_percentage third_state = Inr (Finite False 4691249611844266 (- 47))"
    by (simp add: third_state_def win_percentage_def float_eval)
  have f: "format_1f (Finite False 4691249611844266 (- 47)) = ''33.3''"
    by (simp add: round_scaled_def round_half_even_def Let_def digits_of.simps digit_char_def)
  have d: "display_statistics third_state =
        (statistics_head third_state @ [''Win percentage: 33.3%''], Inr third_state)"
    unfolding display_statistics_def w using f by (simp add: third_state_def)
  from win_percentage_rounded [of third_state] h
  have n: "snd (display_statistics third_state) \<noteq> Inl ZeroDivisionError" by blast
  from win_percentage_rounded [of GuessingGame_init] z
  have i: "display_statistics GuessingGame_init =
        (statistics_head GuessingGame_init @ [''Win percentage: 0%''], Inr GuessingGame_init)"
    by blast
  from h z d n i show ?thesis by simp
qed

section \<open>The documentation generator: properties\<close>

lemma lines_of_not_Nil: "lines_of s \<noteq> []"
  by (induction s) (auto split: list.splits)

lemma hd_lines_of: "hd (lines_of s) = takeWhile not_newline s"
  using lines_of_not_Nil by (induction s) (auto simp: not_newline_def split: list.splits)

lemma tl_lines_of:
  "tl (lines_of s) = (case dropWhile not_newline s of [] \<Rightarrow> [] | _ # r \<Rightarrow> lines_of r)"
proof (induction s)
  case Nil
  show ?case by simp
next
  case (Cons c s)
  show ?case
  proof (cases "c = CHR 0x0A")
    case True
    then show ?thesis by (simp add: not_newline_def)
  next
    case False
    obtain l ls where "lines_of s = l # ls"
      using lines_of_not_Nil [of s] by (cases "lines_of s") auto
    with False Cons.IH show ?thesis by (simp add: not_newline_def)
  qed
qed

lemma lines_of_split:
  "lines_of s = takeWhile not_newline s #
     (case dropWhile not_newline s of [] \<Rightarrow> [] | _ # r \<Rightarrow> lines_of r)"
  using hd_lines_of [of s] tl_lines_of [of s] lines_of_not_Nil [of s]
  by (cases "lines_of s") auto

lemma line_comment_Nil [simp]: "line_comment [] = None"
  by (simp add: line_comment_def)

lemma line_comment_Cons:
  "line_comment (c # l) =
     (if c = CHR ''#'' then (if l = [] then None else Some l) else line_comment l)"
  by (simp add: line_comment_def)

lemma lines_of_Cons:
  "c \<noteq> CHR 0x0A \<Longrightarrow> lines_of (c # s) = (c # takeWhile not_newline s) # tl (lines_of s)"
  using hd_lines_of [of s] lines_of_not_Nil [of s] by (cases "lines_of s") auto

lemma map_filter_rest:
  "List.map_filter line_comment (lines_of (dropWhile not_newline s)) =
   List.map_filter line_comment (tl (lines_of s))"
proof (cases "dropWhile not_newline s")
  case Nil
  show ?thesis unfolding tl_lines_of Nil by (simp add: List.map_filter_simps)
next
  case (Cons c r)
  then have "c = CHR 0x0A"
    by (metis hd_dropWhile list.sel(1) list.simps(3) not_newline_def)
  then show ?thesis unfolding tl_lines_of Cons by (simp add: List.map_filter_simps)
qed

lemma findall_comments_lines:
  "findall_comments s = List.map_filter line_comment (lines_of s)"
proof (induction s rule: findall_comments.induct)
  case 1
  show ?case by (simp add: List.map_filter_simps)
next
  case (2 c s)
  let ?l = "takeWhile not_newline s" and ?ls = "tl (lines_of s)"
  have split: "?l # ?ls = lines_of s"
    using hd_lines_of [of s] lines_of_not_Nil [of s] by (cases "lines_of s") auto
  show ?case
  proof (cases "c = CHR ''#''")
    case hash: True
    then have l: "lines_of (c # s) = (c # ?l) # ?ls"
      by (intro lines_of_Cons) simp
    show ?thesis
    proof (cases "?l = []")
      case True
      with hash have "findall_comments (c # s) = findall_comments s" by simp
      also have "\<dots> = List.map_filter line_comment (?l # ?ls)"
        using "2.IH"(1) [OF hash True] split by simp
      also have "\<dots> = List.map_filter line_comment ?ls"
        using True by (simp add: List.map_filter_simps)
      also have "\<dots> = List.map_filter line_comment (lines_of (c # s))"
        unfolding l using hash True by (simp add: List.map_filter_simps line_comment_Cons)
      finally show ?thesis .
    next
      case False
      with hash have "findall_comments (c # s) = ?l # findall_comments (dropWhile not_newline s)"
        by simp
      also have "\<dots> = ?l # List.map_filter line_comment ?ls"
        using "2.IH"(2) [OF hash False] map_filter_rest [of s] by simp
      also have "\<dots> = List.map_filter line_comment (lines_of (c # s))"
        unfolding l using hash False by (simp add: List.map_filter_simps line_comment_Cons)
      finally show ?thesis .
    qed
  next
    case False
    then have f: "findall_comments (c # s) = List.map_filter line_comment (?l # ?ls)"
      using "2.IH"(3) [OF False] split by simp
    show ?thesis
    proof (cases "c = CHR 0x0A")
      case True
      with f split show ?thesis by (simp add: List.map_filter_simps)
    next
      case nl: False
      from lines_of_Cons [OF nl, of s] False f show ?thesis
        by (simp add: List.map_filter_simps line_comment_Cons)
    qed
  qed
qed

lemma findall_comments_entries:
  "t \<in> set (findall_comments s) \<Longrightarrow> t \<noteq> [] \<and> CHR 0x0A \<notin> set t"
proof (induction s rule: findall_comments.induct)
  case 1
  then show ?case by simp
next
  case (2 c s)
  have "CHR 0x0A \<notin> set (takeWhile not_newline s)"
    using set_takeWhileD [of "CHR 0x0A" not_newline s] by (auto simp: not_newline_def)
  with 2 show ?case by (auto split: if_splits)
qed

lemma first_hash_before:
  assumes "i < length l" "l ! i = CHR ''#''"
  shows "length (takeWhile (\<lambda>c. c \<noteq> CHR ''#'') l) \<le> i"
proof (rule ccontr)
  assume "\<not> length (takeWhile (\<lambda>c. c \<noteq> CHR ''#'') l) \<le> i"
  then have lt: "i < length (takeWhile (\<lambda>c. c \<noteq> CHR ''#'') l)" by simp
  then have "takeWhile (\<lambda>c. c \<noteq> CHR ''#'') l ! i = l ! i" by (rule takeWhile_nth)
  moreover from lt have "takeWhile (\<lambda>c. c \<noteq> CHR ''#'') l ! i \<in> set (takeWhile (\<lambda>c. c \<noteq> CHR ''#'') l)"
    by simp
  ultimately have "l ! i \<noteq> CHR ''#''" using set_takeWhileD by metis
  with assms show False by simp
qed

lemma line_comment_covers:
  assumes "Suc i < length l" "l ! i = CHR ''#''"
  shows "\<exists>t p. line_comment l = Some t \<and> CHR ''#'' # t = p @ drop i l"
proof -
  let ?P = "\<lambda>c. c \<noteq> CHR ''#''"
  let ?j = "length (takeWhile ?P l)"
  from assms have j: "?j \<le> i" by (intro first_hash_before) simp_all
  with assms have jl: "?j < length l" by simp
  have dw: "dropWhile ?P l = drop ?j l" by (rule dropWhile_eq_drop)
  from jl have "\<not> ?P (l ! ?j)" by (rule nth_length_takeWhile)
  then have "l ! ?j = CHR ''#''" by simp
  with jl have d: "drop ?j l = CHR ''#'' # drop (Suc ?j) l"
    by (metis Cons_nth_drop_Suc)
  from j assms have ne: "drop (Suc ?j) l \<noteq> []" by simp
  from dw d ne have lc: "line_comment l = Some (drop (Suc ?j) l)"
    by (simp add: line_comment_def)
  have "drop i l = drop (i - ?j) (drop ?j l)" using j by simp
  then have "CHR ''#'' # drop (Suc ?j) l = take (i - ?j) (drop ?j l) @ drop i l"
    using d by (metis append_take_drop_id)
  with lc show ?thesis by blast
qed

lemma every_hash_rest:
  "CHR ''#'' \<notin> set (takeWhile not_newline s) \<Longrightarrow>
   every_hash s = every_hash (dropWhile not_newline s)"
  by (induction s) (auto simp: not_newline_def)

lemma every_hash_entries:
  "set (every_hash (dropWhile not_newline s)) \<subseteq> set (every_hash s)"
  by (induction s) auto

lemma findall_comments_every_hash_eq:
  "\<forall>t \<in> set (every_hash s). CHR ''#'' \<notin> set t \<Longrightarrow> findall_comments s = every_hash s"
proof (induction s rule: findall_comments.induct)
  case 1
  show ?case by simp
next
  case (2 c s)
  from "2.prems" have rest: "\<forall>t \<in> set (every_hash s). CHR ''#'' \<notin> set t" by simp
  show ?case
  proof (cases "c = CHR ''#'' \<and> takeWhile not_newline s \<noteq> []")
    case True
    with "2.prems" have "CHR ''#'' \<notin> set (takeWhile not_newline s)" by simp
    then have e: "every_hash s = every_hash (dropWhile not_newline s)"
      by (rule every_hash_rest)
    with rest have "\<forall>t \<in> set (every_hash (dropWhile not_newline s)). CHR ''#'' \<notin> set t"
      by simp
    with True "2.IH"(2) have "findall_comments (dropWhile not_newline s) =
        every_hash (dropWhile not_newline s)"
      by simp
    with True e show ?thesis by simp
  next
    case False
    with rest "2.IH"(1,3) show ?thesis by auto
  qed
qed

text \<open>
  C10, as stated, fails: in \<open>example_text\<close> three \<open>#\<close> are followed by a character on
  their line, and the pass yields two entries; the second \<open>#\<close> of the last line is
  none.
\<close>

theorem findall_comments_every_hash_counterexample:
  "every_hash example_text = [''b' '', '' c # d'', '' d'']
   \<and> findall_comments example_text = [''b' '', '' c # d'']
   \<and> '' d'' \<notin> set (findall_comments example_text)"
proof -
  have "every_hash example_text = [''b' '', '' c # d'', '' d'']"
    by (simp add: example_text_def not_newline_def)
  moreover have "findall_comments example_text = [''b' '', '' c # d'']"
    by (simp add: example_text_def not_newline_def)
  ultimately show ?thesis by simp
qed

text \<open>
  C10, amended. The comment pass works on the bare text, line by line: a line yields
  an entry exactly when it holds a \<open>#\<close> followed by at least one character, and the
  entry is everything behind the first \<open>#\<close> of the line, wherever that stands (string
  literals and docstrings included, the pass knows no tokens). A later \<open>#\<close> of the
  line opens no entry of its own: it lies in the text of the line's entry. So the
  entries are one for each such \<open>#\<close> whenever none of these holds a further \<open>#\<close>. A line
  whose only \<open>#\<close> is its last character yields no entry, and no entry is empty or
  spans a line feed.
\<close>

theorem findall_comments_every_hash:
  "findall_comments content = List.map_filter line_comment (lines_of content)
   \<and> (l \<in> set (lines_of content) \<and> Suc i < length l \<and> l ! i = CHR ''#'' \<longrightarrow>
        (\<exists>t p. line_comment l = Some t \<and> t \<in> set (findall_comments content)
               \<and> CHR ''#'' # t = p @ drop i l))
   \<and> ((\<forall>t \<in> set (every_hash content). CHR ''#'' \<notin> set t) \<longrightarrow>
        findall_comments content = every_hash content)
   \<and> (CHR ''#'' \<notin> set a \<longrightarrow> line_comment (a @ ''#'') = None)
   \<and> (\<forall>t \<in> set (findall_comments content). t \<noteq> [] \<and> CHR 0x0A \<notin> set t)"
proof -
  have a: "\<exists>t p. line_comment l = Some t \<and> t \<in> set (findall_comments content)
               \<and> CHR ''#'' # t = p @ drop i l"
    if "l \<in> set (lines_of content)" "Suc i < length l" "l ! i = CHR ''#''"
  proof -
    from line_comment_covers [OF that(2,3)] obtain t p where
      t: "line_comment l = Some t" "CHR ''#'' # t = p @ drop i l" by blast
    from t(1) that(1) have "t \<in> set (findall_comments content)"
      by (force simp: findall_comments_lines List.map_filter_def)
    with t show ?thesis by blast
  qed
  have b: "line_comment (a @ ''#'') = None" if "CHR ''#'' \<notin> set a"
  proof -
    from that have "dropWhile (\<lambda>c. c \<noteq> CHR ''#'') (a @ ''#'') = ''#''"
      by (simp add: dropWhile_append)
    then show ?thesis by (simp add: line_comment_def)
  qed
  from a b findall_comments_entries findall_comments_lines
    findall_comments_every_hash_eq [of content]
  show ?thesis by blast
qed

theorem findall_comments_every_hash_witness:
  "findall_comments example_text = [''b' '', '' c # d'']
   \<and> lines_of example_text = [''s = 'a#b' '', ''x = 1 #'', ''y = 2 # c # d'']
   \<and> line_comment ''s = 'a#b' '' = Some ''b' ''
   \<and> line_comment ''x = 1 #'' = None
   \<and> line_comment ''y = 2 # c # d'' = Some '' c # d''
   \<and> ''y = 2 # c # d'' ! 10 = CHR ''#''
   \<and> CHR ''#'' # '' c # d'' = ''# c '' @ drop 10 ''y = 2 # c # d''
   \<and> every_hash ''x = 1 # c'' = ['' c'']
   \<and> findall_comments ''x = 1 # c'' = ['' c'']"
proof -
  have l: "lines_of example_text = [''s = 'a#b' '', ''x = 1 #'', ''y = 2 # c # d'']"
    by (simp add: example_text_def)
  have c: "line_comment ''s = 'a#b' '' = Some ''b' ''"
    "line_comment ''y = 2 # c # d'' = Some '' c # d''"
    by (simp_all add: line_comment_def)
  have n: "CHR ''#'' \<notin> set ''x = 1 ''" by simp
  from findall_comments_every_hash [of example_text _ _ "''x = 1 ''"] n
  have x: "line_comment ''x = 1 #'' = None" and
    f: "findall_comments example_text = List.map_filter line_comment (lines_of example_text)"
    by simp_all
  from f l c x have e: "findall_comments example_text = [''b' '', '' c # d'']"
    by (simp add: List.map_filter_simps)
  have h: "every_hash ''x = 1 # c'' = ['' c'']"
    by (simp add: not_newline_def)
  from findall_comments_every_hash [where content = "''x = 1 # c''",
      THEN conjunct2, THEN conjunct2, THEN conjunct1] h
  have g: "findall_comments ''x = 1 # c'' = ['' c'']"
    by (simp del: findall_comments.simps every_hash.simps)
  from l c x e h g show ?thesis by simp
qed

lemma parse_python_file_failure:
  "\<not> parses read_file ast_parse path \<Longrightarrow>
   \<exists>e. parse_python_file read_file ast_parse self path =
     ([''Error parsing file '' @ path @ '': '' @ message e], self)"
  by (auto simp: parses_def parse_python_file_def Let_def split: sum.splits)

lemma parse_python_file_success:
  "parses read_file ast_parse path \<Longrightarrow>
   \<exists>entry. parse_python_file read_file ast_parse self path =
     ([], self\<lparr>comments_data := comments_data self @ [entry]\<rparr>) \<and> file_path entry = path"
  by (auto simp: parses_def parse_python_file_def Let_def split: sum.splits)

lemma parse_files_Cons:
  "parse_files read_file ast_parse self (path # paths) =
     (fst (parse_python_file read_file ast_parse self path) @
        fst (parse_files read_file ast_parse (snd (parse_python_file read_file ast_parse self path)) paths),
      snd (parse_files read_file ast_parse (snd (parse_python_file read_file ast_parse self path)) paths))"
  by (simp split: prod.splits)

lemma parse_files_effect:
  "\<exists>new. snd (parse_files read_file ast_parse self paths) =
            self\<lparr>comments_data := comments_data self @ new\<rparr>
       \<and> map file_path new = filter (parses read_file ast_parse) paths
       \<and> length (fst (parse_files read_file ast_parse self paths)) =
           length (filter (\<lambda>p. \<not> parses read_file ast_parse p) paths)"
proof (induction paths arbitrary: self)
  case Nil
  show ?case by simp
next
  case (Cons path paths)
  note parse_files.simps [simp del]
  show ?case
  proof (cases "parses read_file ast_parse path")
    case True
    from parse_python_file_success [OF True, of self] obtain entry where
      e: "parse_python_file read_file ast_parse self path =
           ([], self\<lparr>comments_data := comments_data self @ [entry]\<rparr>)" "file_path entry = path"
      by blast
    from Cons.IH [of "self\<lparr>comments_data := comments_data self @ [entry]\<rparr>"] obtain new where
      n: "snd (parse_files read_file ast_parse (self\<lparr>comments_data := comments_data self @ [entry]\<rparr>) paths) =
            self\<lparr>comments_data := comments_data self @ entry # new\<rparr>"
        "map file_path new = filter (parses read_file ast_parse) paths"
        "length (fst (parse_files read_file ast_parse (self\<lparr>comments_data := comments_data self @ [entry]\<rparr>) paths)) =
           length (filter (\<lambda>p. \<not> parses read_file ast_parse p) paths)"
      by auto
    from e n True show ?thesis
      by (intro exI [of _ "entry # new"]) (simp add: parse_files_Cons)
  next
    case False
    from parse_python_file_failure [OF False, of self] obtain e where
      e: "parse_python_file read_file ast_parse self path =
           ([''Error parsing file '' @ path @ '': '' @ message e], self)"
      by blast
    from Cons.IH [of self] obtain new where
      n: "snd (parse_files read_file ast_parse self paths) = self\<lparr>comments_data := comments_data self @ new\<rparr>"
        "map file_path new = filter (parses read_file ast_parse) paths"
        "length (fst (parse_files read_file ast_parse self paths)) =
           length (filter (\<lambda>p. \<not> parses read_file ast_parse p) paths)"
      by blast
    from e n False show ?thesis
      by (intro exI [of _ new]) (simp add: parse_files_Cons)
  qed
qed

text \<open>
  C4. When reading a file raises, or parsing its text raises, \<open>parse_python_file\<close>
  prints one line naming the file and the exception and returns the generator as it
  was; the call itself never raises. Over a list of paths, the collected data grows by
  one entry for each file that reads and parses, in order, and the console gets one
  line for each file that does not.
\<close>

theorem parse_failure_is_skipped:
  "(read_file path = Inl e \<longrightarrow>
      parse_python_file read_file ast_parse self path =
        ([''Error parsing file '' @ path @ '': '' @ message e], self))
   \<and> (read_file path = Inr content \<and> ast_parse content = Inl e \<longrightarrow>
      parse_python_file read_file ast_parse self path =
        ([''Error parsing file '' @ path @ '': '' @ message e], self))
   \<and> (\<exists>new. snd (parse_files read_file ast_parse self paths) =
               self\<lparr>comments_data := comments_data self @ new\<rparr>
          \<and> map file_path new = filter (parses read_file ast_parse) paths)
   \<and> length (fst (parse_files read_file ast_parse self paths)) =
       length (filter (\<lambda>p. \<not> parses read_file ast_parse p) paths)"
proof -
  have a: "parse_python_file read_file ast_parse self path =
        ([''Error parsing file '' @ path @ '': '' @ message e], self)"
    if "read_file path = Inl e"
    using that by (simp add: parse_python_file_def)
  have b: "parse_python_file read_file ast_parse self path =
        ([''Error parsing file '' @ path @ '': '' @ message e], self)"
    if "read_file path = Inr content \<and> ast_parse content = Inl e"
    using that by (simp add: parse_python_file_def)
  from a b parse_files_effect [of read_file ast_parse self paths] show ?thesis by blast
qed

theorem parse_failure_is_skipped_witness:
  "example_read ''missing.py'' = Inl (Exc ''No such file'')
   \<and> parse_python_file example_read example_parse DocumentationGenerator_init ''missing.py'' =
        ([''Error parsing file missing.py: No such file''], DocumentationGenerator_init)
   \<and> example_read ''broken.py'' = Inr ''def'' \<and> example_parse ''def'' = Inl (Exc ''invalid syntax'')
   \<and> parse_python_file example_read example_parse DocumentationGenerator_init ''broken.py'' =
        ([''Error parsing file broken.py: invalid syntax''], DocumentationGenerator_init)
   \<and> map file_path (comments_data (snd (parse_files example_read example_parse
          DocumentationGenerator_init [''missing.py'', ''example.py'', ''broken.py'']))) = [''example.py'']
   \<and> length (fst (parse_files example_read example_parse
          DocumentationGenerator_init [''missing.py'', ''example.py'', ''broken.py''])) = 2"
proof -
  have r: "example_read ''missing.py'' = Inl (Exc ''No such file'')"
    "example_read ''broken.py'' = Inr ''def''"
    by (simp_all add: example_read_def)
  have ne: "''def'' \<noteq> example_source"
    by (simp add: example_source_def quotes3_def numeral_3_eq_3)
  then have q: "example_parse ''def'' = Inl (Exc ''invalid syntax'')"
    by (simp add: example_parse_def)
  have p: "\<not> parses example_read example_parse ''missing.py''"
    "parses example_read example_parse ''example.py''"
    "\<not> parses example_read example_parse ''broken.py''"
    using ne by (simp_all add: parses_def example_read_def example_parse_def)
  note t = parse_failure_is_skipped [where read_file = example_read and ast_parse = example_parse
      and self = DocumentationGenerator_init
      and paths = "[''missing.py'', ''example.py'', ''broken.py'']"]
  from t [where path = "''missing.py''" and e = "Exc ''No such file''"] r
  have m: "parse_python_file example_read example_parse DocumentationGenerator_init ''missing.py'' =
        ([''Error parsing file missing.py: No such file''], DocumentationGenerator_init)"
    by simp
  from t [where path = "''broken.py''" and e = "Exc ''invalid syntax''" and content = "''def''"] r q
  have b: "parse_python_file example_read example_parse DocumentationGenerator_init ''broken.py'' =
        ([''Error parsing file broken.py: invalid syntax''], DocumentationGenerator_init)"
    by simp
  note u = t [where path = "''x''" and e = "Exc []" and content = "[]", THEN conjunct2, THEN conjunct2]
  from u [THEN conjunct1] p obtain new where
    "snd (parse_files example_read example_parse DocumentationGenerator_init
        [''missing.py'', ''example.py'', ''broken.py'']) =
      DocumentationGenerator_init\<lparr>comments_data := comments_data DocumentationGenerator_init @ new\<rparr>"
    "map file_path new = [''example.py'']"
    by (auto simp del: parse_files.simps)
  then have d: "map file_path (comments_data (snd (parse_files example_read example_parse
          DocumentationGenerator_init [''missing.py'', ''example.py'', ''broken.py'']))) = [''example.py'']"
    by (simp add: DocumentationGenerator_init_def del: parse_files.simps)
  from u [THEN conjunct2] p
  have l: "length (fst (parse_files example_read example_parse
          DocumentationGenerator_init [''missing.py'', ''example.py'', ''broken.py''])) = 2"
    by (simp del: parse_files.simps)
  from r q m b d l show ?thesis by (simp del: parse_files.simps)
qed

lemma length_filter_walk_queue:
  "length (filter P (walk_queue q)) = length (filter P (concat (map preorder q)))"
proof (induction q rule: walk_queue.induct)
  case 1
  show ?case by simp
next
  case (2 node todo)
  then show ?case by (cases node) simp
qed

lemma set_walk_queue:
  "set (walk_queue q) = set (concat (map preorder q))"
proof (induction q rule: walk_queue.induct)
  case 1
  show ?case by simp
next
  case (2 node todo)
  then show ?case by (cases node) auto
qed

lemma node_entries_filter:
  "c \<in> {Module, ClassDef, FunctionDef} \<Longrightarrow>
   filter (\<lambda>d. node_type d = class_name c) (node_entries node) =
     (if documented c node then node_entries node else [])"
  by (cases "node_class node"; cases c)
    (auto simp: node_entries_def documented_def split: option.splits)

lemma node_entries_documented:
  "c \<in> {Module, ClassDef, FunctionDef} \<Longrightarrow> documented c node \<Longrightarrow>
   \<exists>m. node_entries node = [m] \<and> get_docstring node = Some (docstring m) \<and> docstring m \<noteq> []"
  by (auto simp: node_entries_def documented_def split: option.splits)

lemma entries_of_class:
  assumes c: "c \<in> {Module, ClassDef, FunctionDef}"
    and one: "length (filter (documented c) ns) = 1"
  shows "\<exists>m n. filter (\<lambda>d. node_type d = class_name c) (concat (map node_entries ns)) = [m]
     \<and> n \<in> set ns \<and> node_class n = c \<and> get_docstring n = Some (docstring m) \<and> docstring m \<noteq> []"
  using one
proof (induction ns)
  case Nil
  then show ?case by simp
next
  case (Cons node ns)
  show ?case
  proof (cases "documented c node")
    case True
    with Cons.prems have "filter (documented c) ns = []" by simp
    then have none: "\<forall>n \<in> set ns. \<not> documented c n"
      by (simp add: filter_empty_conv)
    have "filter (\<lambda>d. node_type d = class_name c) (concat (map node_entries ns)) = []"
      using none
    proof (induction ns)
      case Nil
      show ?case by simp
    next
      case (Cons a ns)
      with node_entries_filter [OF c, of a] show ?case by simp
    qed
    moreover from node_entries_documented [OF c True] obtain m where
      "node_entries node = [m]" "get_docstring node = Some (docstring m)" "docstring m \<noteq> []"
      by blast
    moreover from True have "node_class node = c" by (simp add: documented_def)
    ultimately show ?thesis
      using node_entries_filter [OF c, of node] True by (auto split: if_splits)
  next
    case False
    with Cons.prems have "length (filter (documented c) ns) = 1" by simp
    from Cons.IH [OF this] obtain m n where
      "filter (\<lambda>d. node_type d = class_name c) (concat (map node_entries ns)) = [m]"
      "n \<in> set ns" "node_class n = c" "get_docstring n = Some (docstring m)" "docstring m \<noteq> []"
      by blast
    with False node_entries_filter [OF c, of node] show ?thesis by auto
  qed
qed

lemma extract_docstrings_of_class:
  assumes c: "c \<in> {Module, ClassDef, FunctionDef}"
    and one: "length (filter (documented c) (preorder tree)) = 1"
  shows "\<exists>m n. filter (\<lambda>d. node_type d = class_name c) (extract_docstrings tree) = [m]
     \<and> n \<in> set (preorder tree) \<and> node_class n = c
     \<and> get_docstring n = Some (docstring m) \<and> docstring m \<noteq> []"
proof -
  have flat: "concat (map preorder [tree]) = preorder tree"
    by (simp del: preorder.simps)
  have "length (filter (documented c) (walk tree)) =
      length (filter (documented c) (concat (map preorder [tree])))"
    unfolding walk_def by (rule length_filter_walk_queue)
  with one flat have "length (filter (documented c) (walk tree)) = 1"
    by (simp del: preorder.simps)
  moreover have "set (walk tree) = set (preorder tree)"
    unfolding walk_def using set_walk_queue [of "[tree]"] flat by (simp del: preorder.simps)
  ultimately show ?thesis
    using entries_of_class [OF c, of "walk tree"]
    by (simp add: extract_docstrings_def del: preorder.simps)
qed

lemma strip_trimmed: "trimmed (strip s)"
proof -
  let ?a = "dropWhile isspace s"
  let ?b = "dropWhile isspace (rev ?a)"
  show ?thesis
  proof (cases "?b = []")
    case True
    then show ?thesis by (simp add: trimmed_def strip_def)
  next
    case False
    have a: "?a \<noteq> []"
    proof
      assume "?a = []"
      then have "?b = dropWhile isspace (rev [])" by (simp only:)
      with False show False by simp
    qed
    from False have hb: "\<not> isspace (hd ?b)" by (rule hd_dropWhile)
    from a have ha: "\<not> isspace (hd ?a)" by (rule hd_dropWhile)
    have "?b = drop (length (takeWhile isspace (rev ?a))) (rev ?a)"
      by (rule dropWhile_eq_drop)
    moreover from False have "length (takeWhile isspace (rev ?a)) < length (rev ?a)"
      by (metis calculation drop_all not_le_imp_less)
    ultimately have "last ?b = last (rev ?a)"
      by (metis last_drop)
    with a have lb: "last ?b = hd ?a" by (simp add: last_rev)
    from False have "hd (rev ?b) = last ?b" by (simp add: hd_rev)
    moreover from False have "last (rev ?b) = hd ?b" by (simp add: last_rev)
    ultimately show ?thesis
      using False ha hb lb by (simp add: trimmed_def strip_def)
  qed
qed

lemma two_comments:
  "comment_blocks [c1, c2] =
     [Paragraph [strong ''Comment 1: '', plain (strip c1)],
      Paragraph [strong ''Comment 2: '', plain (strip c2)]]"
proof -
  have "[1 ..< Suc (length [c1, c2])] = [1, 2]"
    by (simp add: upt_rec)
  then show ?thesis
    by (simp add: comment_blocks_def str_int_def digits_of.simps digit_char_def)
qed

lemma lines_of_no_newline: "l \<in> set (lines_of s) \<Longrightarrow> CHR 0x0A \<notin> set l"
proof (induction s arbitrary: l)
  case Nil
  then show ?case by simp
next
  case (Cons c s)
  obtain l' ls where ls: "lines_of s = l' # ls"
    using lines_of_not_Nil [of s] by (cases "lines_of s") auto
  with Cons show ?case by (auto split: if_splits)
qed

lemma join_lines_hd:
  "ls \<noteq> [] \<Longrightarrow> hd ls \<noteq> [] \<Longrightarrow> join_lines ls \<noteq> [] \<and> hd (join_lines ls) = hd (hd ls)"
  by (cases ls rule: join_lines.cases) auto

lemma join_lines_Nil: "join_lines ls = [] \<Longrightarrow> ls = [] \<or> ls = [[]]"
  by (cases ls rule: join_lines.cases) auto

lemma join_lines_last:
  "ls \<noteq> [] \<Longrightarrow> last ls \<noteq> [] \<Longrightarrow> last (join_lines ls) = last (last ls)"
proof (induction ls rule: join_lines.induct)
  case (3 l v va)
  then have "join_lines (v # va) \<noteq> []" using join_lines_Nil [of "v # va"] by auto
  with 3 show ?case by simp
qed simp_all

lemma last_dropWhile: "dropWhile P xs \<noteq> [] \<Longrightarrow> last (dropWhile P xs) = last xs"
  by (induction xs) (auto split: if_splits)

lemma cleandoc_no_empty_edge: "no_empty_edge (cleandoc document)"
proof -
  obtain first others where lo: "lines_of (expandtabs 0 document) = first # others"
    using lines_of_not_Nil [of "expandtabs 0 document"]
    by (cases "lines_of (expandtabs 0 document)") auto
  define xs where "xs = lstrip first #
      (case margin others of None \<Rightarrow> others | Some m \<Rightarrow> map (drop m) others)"
  define ys where "ys = rev (dropWhile (\<lambda>l. l = []) (rev xs))"
  define ls where "ls = dropWhile (\<lambda>l. l = []) ys"
  have c: "cleandoc document = join_lines ls"
    by (simp add: cleandoc_def lo ls_def ys_def xs_def)
  have src: "CHR 0x0A \<notin> set l" if "l \<in> set (first # others)" for l
    using that lines_of_no_newline [of l "expandtabs 0 document"] lo by simp
  have x: "CHR 0x0A \<notin> set l" if "l \<in> set xs" for l
  proof -
    from that consider "l = lstrip first" | "l \<in> set others"
      | m where "l \<in> set (map (drop m) others)"
      by (auto simp: xs_def split: option.splits)
    then show ?thesis
    proof cases
      case 1
      then show ?thesis using src [of first] set_dropWhileD [of "CHR 0x0A" isspace first]
        by (auto simp: lstrip_def)
    next
      case 2
      then show ?thesis using src [of l] by simp
    next
      case 3
      then obtain l' where "l' \<in> set others" "l = drop m l'" by auto
      then show ?thesis using src [of l'] in_set_dropD [of "CHR 0x0A" m l'] by auto
    qed
  qed
  have sub: "l \<in> set xs" if "l \<in> set ls" for l
  proof -
    from that have "l \<in> set ys" unfolding ls_def by (rule set_dropWhileD)
    then have "l \<in> set (dropWhile (\<lambda>l. l = []) (rev xs))" by (simp add: ys_def)
    then have "l \<in> set (rev xs)" by (rule set_dropWhileD)
    then show ?thesis by simp
  qed
  show ?thesis
  proof (cases "ls = []")
    case True
    then show ?thesis by (simp add: c no_empty_edge_def)
  next
    case False
    then have h: "hd ls \<noteq> []" unfolding ls_def by (rule hd_dropWhile)
    from False have y: "ys \<noteq> []" by (auto simp: ls_def)
    from False have "last ls = last ys" unfolding ls_def by (rule last_dropWhile)
    also from y have "\<dots> = hd (dropWhile (\<lambda>l. l = []) (rev xs))"
      by (simp add: ys_def last_rev)
    finally have "last ls = hd (dropWhile (\<lambda>l. l = []) (rev xs))" .
    moreover from y have "dropWhile (\<lambda>l. l = []) (rev xs) \<noteq> []" by (simp add: ys_def)
    then have "hd (dropWhile (\<lambda>l. l = []) (rev xs)) \<noteq> []" by (rule hd_dropWhile)
    ultimately have t: "last ls \<noteq> []" by simp
    from False x sub have "CHR 0x0A \<notin> set (hd ls)" "CHR 0x0A \<notin> set (last ls)"
      by (auto dest: hd_in_set last_in_set)
    with h t have "hd (hd ls) \<noteq> CHR 0x0A" "last (last ls) \<noteq> CHR 0x0A"
      by (metis hd_in_set, metis last_in_set)
    with join_lines_hd [OF False h] join_lines_last [OF False t] show ?thesis
      by (simp add: c no_empty_edge_def)
  qed
qed

lemma example_docstrings:
  "extract_docstrings example_tree =
     [\<lparr>node_type = ''Module'', node_name = ''Module'', docstring = ''Doc #1  ''\<rparr>,
      \<lparr>node_type = ''FunctionDef'', node_name = ''f'', docstring = ''F.''\<rparr>]"
proof -
  have c: "cleandoc ''Doc #1  '' = ''Doc #1  ''" "cleandoc ''F.'' = ''F.''"
    by (simp_all add: cleandoc_def lstrip_def isspace_def)
  have w: "walk example_tree =
      [example_tree,
       Node OtherNode None None [leaf],
       Node FunctionDef (Some ''f'') (Some ''F.'') [leaf, Node OtherNode None None [leaf]],
       leaf, leaf, Node OtherNode None None [leaf], leaf]"
    by (simp add: walk_def example_tree_def leaf_def)
  show ?thesis
    unfolding extract_docstrings_def w
    by (simp add: node_entries_def get_docstring_def example_tree_def leaf_def c)
qed

lemma plain_docstrings:
  "extract_docstrings plain_tree =
     [\<lparr>node_type = ''Module'', node_name = ''Module'', docstring = ''Doc''\<rparr>,
      \<lparr>node_type = ''FunctionDef'', node_name = ''f'', docstring = ''F.''\<rparr>]"
proof -
  have c: "cleandoc ([CHR 0x0A] @ ''  Doc'' @ [CHR 0x0A]) = ''Doc''" "cleandoc ''F.'' = ''F.''"
    by (simp_all add: cleandoc_def lstrip_def isspace_def)
  have w: "walk plain_tree =
      [plain_tree,
       Node OtherNode None None [leaf],
       Node OtherNode None None [Node OtherNode None None [leaf], leaf],
       Node FunctionDef (Some ''f'') (Some ''F.'') [leaf, Node OtherNode None None [leaf]],
       leaf, Node OtherNode None None [leaf], leaf, leaf, Node OtherNode None None [leaf],
       leaf, leaf]"
    by (simp add: walk_def plain_tree_def leaf_def)
  show ?thesis
    unfolding extract_docstrings_def w
    using c by (simp add: node_entries_def get_docstring_def plain_tree_def leaf_def)
qed

lemma plain_comments: "findall_comments plain_source = ['' a'', ''  b  '']"
  by (simp add: plain_source_def quotes3_def numeral_3_eq_3 not_newline_def)

text \<open>
  C3, as stated, fails on both counts: the text \<open>example_source\<close> has one module
  docstring, one function with a docstring and two comment lines, and the comment pass
  yields three entries, the first from the \<open>#\<close> inside the module docstring; and the
  entry of the module docstring keeps the two blanks at its end, so that its text is
  not trimmed.
\<close>

theorem extraction_counts_counterexample:
  "example_read ''example.py'' = Inr example_source
   \<and> example_parse example_source = Inr example_tree
   \<and> length (filter (documented Module) (preorder example_tree)) = 1
   \<and> length (filter (documented FunctionDef) (preorder example_tree)) = 1
   \<and> filter is_comment_line (lines_of example_source) = [''# a'', ''# b'']
   \<and> parse_python_file example_read example_parse DocumentationGenerator_init ''example.py'' =
        ([], \<lparr>doc = [], comments_data =
               [\<lparr>file_path = ''example.py'',
                 comments = [''1  '' @ quotes3, '' a'', '' b''],
                 docstrings =
                   [\<lparr>node_type = ''Module'', node_name = ''Module'', docstring = ''Doc #1  ''\<rparr>,
                    \<lparr>node_type = ''FunctionDef'', node_name = ''f'', docstring = ''F.''\<rparr>]\<rparr>]\<rparr>)
   \<and> length [''1  '' @ quotes3, '' a'', '' b''] \<noteq> 2
   \<and> \<not> trimmed ''Doc #1  ''"
proof -
  have l: "lines_of example_source =
      [quotes3 @ ''Doc #1  '' @ quotes3, ''# a'', ''# b'', ''def f():'',
       ''    '' @ quotes3 @ ''F.'' @ quotes3, []]"
    by (simp add: example_source_def quotes3_def numeral_3_eq_3)
  have c: "filter is_comment_line (lines_of example_source) = [''# a'', ''# b'']"
    unfolding l by (simp add: is_comment_line_def isspace_def quotes3_def numeral_3_eq_3)
  have f: "findall_comments example_source = [''1  '' @ quotes3, '' a'', '' b'']"
    by (simp add: example_source_def quotes3_def numeral_3_eq_3 not_newline_def)
  have d: "length (filter (documented Module) (preorder example_tree)) = 1"
    "length (filter (documented FunctionDef) (preorder example_tree)) = 1"
    by (simp_all add: example_tree_def leaf_def documented_def get_docstring_def
        cleandoc_def lstrip_def isspace_def)
  have p: "parse_python_file example_read example_parse DocumentationGenerator_init ''example.py'' =
        ([], \<lparr>doc = [], comments_data =
               [\<lparr>file_path = ''example.py'',
                 comments = [''1  '' @ quotes3, '' a'', '' b''],
                 docstrings = extract_docstrings example_tree\<rparr>]\<rparr>)"
    by (simp add: parse_python_file_def example_read_def example_parse_def f
        DocumentationGenerator_init_def)
  have t: "\<not> trimmed ''Doc #1  ''"
    by (simp add: trimmed_def isspace_def)
  from c d p t show ?thesis
    by (simp add: example_read_def example_parse_def example_docstrings)
qed

text \<open>
  C3, amended. For a text whose tree has exactly one Module node and exactly one
  FunctionDef node with a docstring that is not empty once cleaned, and in which
  exactly two lines hold a \<open>#\<close> followed by at least one character,
  \<open>parse_python_file\<close> appends one entry with exactly one Module docstring, one
  FunctionDef docstring and two comments. The text of each docstring entry is the
  docstring of its node as \<open>cleandoc\<close> leaves it: without the indentation of the first
  line, without the common margin of the later ones, neither beginning nor ending
  with an empty line, the blanks at the end of a line kept. Each comment is the text
  behind the first \<open>#\<close> of its line, and the comments section prints it stripped of
  white space at both ends.
\<close>

theorem extraction_of_documented_source:
  assumes "read_file path = Inr content" and "ast_parse content = Inr tree"
    and "length (filter (documented Module) (preorder tree)) = 1"
    and "length (filter (documented FunctionDef) (preorder tree)) = 1"
    and "length (filter (\<lambda>l. line_comment l \<noteq> None) (lines_of content)) = 2"
  shows "\<exists>ds m f c1 c2 nm nf rm rf.
      parse_python_file read_file ast_parse self path =
        ([], self\<lparr>comments_data := comments_data self @
               [\<lparr>file_path = path, comments = [c1, c2], docstrings = ds\<rparr>]\<rparr>)
      \<and> filter (\<lambda>d. node_type d = ''Module'') ds = [m]
      \<and> filter (\<lambda>d. node_type d = ''FunctionDef'') ds = [f]
      \<and> nm \<in> set (preorder tree) \<and> node_class nm = Module
      \<and> docstring_constant nm = Some rm \<and> docstring m = cleandoc rm
      \<and> docstring m \<noteq> [] \<and> no_empty_edge (docstring m)
      \<and> nf \<in> set (preorder tree) \<and> node_class nf = FunctionDef
      \<and> docstring_constant nf = Some rf \<and> docstring f = cleandoc rf
      \<and> docstring f \<noteq> [] \<and> no_empty_edge (docstring f)
      \<and> List.map_filter line_comment (lines_of content) = [c1, c2]
      \<and> comment_blocks [c1, c2] =
            [Paragraph [strong ''Comment 1: '', plain (strip c1)],
             Paragraph [strong ''Comment 2: '', plain (strip c2)]]
      \<and> trimmed (strip c1) \<and> trimmed (strip c2)"
proof -
  from extract_docstrings_of_class [of Module tree] assms(3) obtain m nm where
    m: "filter (\<lambda>d. node_type d = ''Module'') (extract_docstrings tree) = [m]"
      "nm \<in> set (preorder tree)" "node_class nm = Module"
      "get_docstring nm = Some (docstring m)" "docstring m \<noteq> []"
    by auto
  from m(4) obtain rm where rm: "docstring_constant nm = Some rm" "docstring m = cleandoc rm"
    by (auto simp: get_docstring_def split: option.splits)
  from rm(2) have em: "no_empty_edge (docstring m)" by (simp add: cleandoc_no_empty_edge)
  from extract_docstrings_of_class [of FunctionDef tree] assms(4) obtain f nf where
    f: "filter (\<lambda>d. node_type d = ''FunctionDef'') (extract_docstrings tree) = [f]"
      "nf \<in> set (preorder tree)" "node_class nf = FunctionDef"
      "get_docstring nf = Some (docstring f)" "docstring f \<noteq> []"
    by auto
  from f(4) obtain rf where rf: "docstring_constant nf = Some rf" "docstring f = cleandoc rf"
    by (auto simp: get_docstring_def split: option.splits)
  from rf(2) have ef: "no_empty_edge (docstring f)" by (simp add: cleandoc_no_empty_edge)
  from assms(5) have "length (findall_comments content) = 2"
    by (simp add: findall_comments_lines List.map_filter_def)
  then obtain c1 c2 where c: "findall_comments content = [c1, c2]"
    by (metis One_nat_def Suc_1 length_0_conv length_Suc_conv)
  have p: "parse_python_file read_file ast_parse self path =
        ([], self\<lparr>comments_data := comments_data self @
               [\<lparr>file_path = path, comments = [c1, c2], docstrings = extract_docstrings tree\<rparr>]\<rparr>)"
    using assms(1,2) c by (simp add: parse_python_file_def)
  from c have l: "List.map_filter line_comment (lines_of content) = [c1, c2]"
    by (simp add: findall_comments_lines)
  from p m(1,2,3,5) rm em f(1,2,3,5) rf ef l two_comments [of c1 c2]
    strip_trimmed [of c1] strip_trimmed [of c2]
  show ?thesis by blast
qed

theorem extraction_of_documented_source_witness:
  "plain_read ''plain.py'' = Inr plain_source \<and> plain_parse plain_source = Inr plain_tree
   \<and> length (filter (documented Module) (preorder plain_tree)) = 1
   \<and> length (filter (documented FunctionDef) (preorder plain_tree)) = 1
   \<and> length (filter (\<lambda>l. line_comment l \<noteq> None) (lines_of plain_source)) = 2
   \<and> parse_python_file plain_read plain_parse DocumentationGenerator_init ''plain.py'' =
        ([], \<lparr>doc = [], comments_data =
               [\<lparr>file_path = ''plain.py'', comments = ['' a'', ''  b  ''],
                 docstrings = [\<lparr>node_type = ''Module'', node_name = ''Module'', docstring = ''Doc''\<rparr>,
                               \<lparr>node_type = ''FunctionDef'', node_name = ''f'', docstring = ''F.''\<rparr>]\<rparr>]\<rparr>)
   \<and> cleandoc ([CHR 0x0A] @ ''  Doc'' @ [CHR 0x0A]) = ''Doc''
   \<and> no_empty_edge ''Doc'' \<and> no_empty_edge ''F.''
   \<and> comment_blocks ['' a'', ''  b  ''] =
        [Paragraph [strong ''Comment 1: '', plain ''a''], Paragraph [strong ''Comment 2: '', plain ''b'']]"
proof -
  have r: "plain_read ''plain.py'' = Inr plain_source" "plain_parse plain_source = Inr plain_tree"
    by (simp_all add: plain_read_def plain_parse_def)
  have d: "length (filter (documented Module) (preorder plain_tree)) = 1"
    "length (filter (documented FunctionDef) (preorder plain_tree)) = 1"
    by (simp_all add: plain_tree_def leaf_def documented_def get_docstring_def
        cleandoc_def lstrip_def isspace_def)
  have l: "lines_of plain_source =
      [quotes3, ''  Doc'', quotes3, ''# a'', ''x = 1  #  b  '', ''def f():'',
       ''    '' @ quotes3 @ ''F.'' @ quotes3, []]"
    by (simp add: plain_source_def quotes3_def numeral_3_eq_3)
  have c: "List.map_filter line_comment (lines_of plain_source) = ['' a'', ''  b  '']"
    unfolding l
    by (simp add: List.map_filter_simps line_comment_def quotes3_def numeral_3_eq_3)
  then have n: "length (filter (\<lambda>l. line_comment l \<noteq> None) (lines_of plain_source)) = 2"
    by (metis List.map_filter_def length_Cons length_map list.size(3) numeral_2_eq_2)
  have s: "strip '' a'' = ''a''" "strip ''  b  '' = ''b''"
    by (simp_all add: strip_def isspace_def)
  have k: "cleandoc ([CHR 0x0A] @ ''  Doc'' @ [CHR 0x0A]) = ''Doc''"
    by (simp add: cleandoc_def lstrip_def isspace_def)
  from extraction_of_documented_source [where read_file = plain_read and ast_parse = plain_parse
      and path = "''plain.py''" and content = plain_source and tree = plain_tree
      and self = DocumentationGenerator_init, OF r d n]
  obtain ds m f c1 c2 where
    p: "parse_python_file plain_read plain_parse DocumentationGenerator_init ''plain.py'' =
        ([], DocumentationGenerator_init\<lparr>comments_data := comments_data DocumentationGenerator_init @
               [\<lparr>file_path = ''plain.py'', comments = [c1, c2], docstrings = ds\<rparr>]\<rparr>)"
    and fm: "filter (\<lambda>d. node_type d = ''Module'') ds = [m]"
    and ff: "filter (\<lambda>d. node_type d = ''FunctionDef'') ds = [f]"
    and e: "no_empty_edge (docstring m)" "no_empty_edge (docstring f)"
    and cs: "List.map_filter line_comment (lines_of plain_source) = [c1, c2]"
    and b: "comment_blocks [c1, c2] =
            [Paragraph [strong ''Comment 1: '', plain (strip c1)],
             Paragraph [strong ''Comment 2: '', plain (strip c2)]]"
    by blast
  from cs c have c12: "c1 = '' a''" "c2 = ''  b  ''" by simp_all
  from p have ds: "ds = extract_docstrings plain_tree"
    by (simp add: parse_python_file_def plain_read_def plain_parse_def
        DocumentationGenerator_init_def)
  from fm ff e have e': "no_empty_edge ''Doc''" "no_empty_edge ''F.''"
    unfolding ds plain_docstrings by auto
  from p c12 b s r d n k e' show ?thesis
    unfolding ds plain_docstrings by (simp add: DocumentationGenerator_init_def)
qed

lemma add_accepted:
  "add blocks self =
     (if list_all xml_ok (concat (map block_texts blocks))
      then Inr (self\<lparr>doc := doc self @ blocks\<rparr>) else Inl xml_error)"
  by (simp add: add_def)

lemma create_sections_accepted:
  "create_sections now self =
     (if accepted now (comments_data self)
      then Inr (self\<lparr>doc := doc self @ report_blocks now (comments_data self)\<rparr>)
      else Inl xml_error)"
  by (simp add: create_sections_def and_then_def create_title_page_def
      create_table_of_contents_def create_introduction_def create_file_documentation_def
      create_class_function_docs_def create_comments_section_def add_accepted
      accepted_def report_blocks_def)

lemma cleanup_keeps:
  "save_error (snd (cleanup_old_documentation os output_file)) = save_error os"
  "p \<noteq> output_file \<Longrightarrow> files (snd (cleanup_old_documentation os output_file)) p = files os p"
  "remove_error os output_file \<noteq> None \<Longrightarrow> snd (cleanup_old_documentation os output_file) = os"
  by (auto simp: cleanup_old_documentation_def split: option.splits)

lemma generate_documentation_cases:
  "generate_documentation now os self output_file =
     (if \<not> accepted now (comments_data self)
      then (''Starting documentation generation...'' # fst (cleanup_old_documentation os output_file),
            snd (cleanup_old_documentation os output_file), Inl xml_error)
      else case save_error os output_file of
             Some (Refused e) \<Rightarrow>
               (''Starting documentation generation...'' # fst (cleanup_old_documentation os output_file),
                snd (cleanup_old_documentation os output_file), Inl e)
           | Some (Interrupted e) \<Rightarrow>
               (''Starting documentation generation...'' # fst (cleanup_old_documentation os output_file),
                (snd (cleanup_old_documentation os output_file))
                  \<lparr>files := (files (snd (cleanup_old_documentation os output_file)))
                     (output_file \<mapsto> Truncated)\<rparr>,
                Inl e)
           | None \<Rightarrow>
               (''Starting documentation generation...'' # fst (cleanup_old_documentation os output_file) @
                [''Documentation generated successfully: '' @ output_file,
                 ''Total files processed: '' @ str_int (int (length (comments_data self))),
                 ''Total comments extracted: '' @
                   str_int (int (sum_list (map (\<lambda>fd. length (comments fd)) (comments_data self)))),
                 ''Total docstrings extracted: '' @
                   str_int (int (sum_list (map (\<lambda>fd. length (docstrings fd)) (comments_data self))))],
                (snd (cleanup_old_documentation os output_file))
                  \<lparr>files := (files (snd (cleanup_old_documentation os output_file)))
                     (output_file \<mapsto> Saved (doc self @ report_blocks now (comments_data self)))\<rparr>,
                Inr (self\<lparr>doc := doc self @ report_blocks now (comments_data self)\<rparr>)))"
proof -
  obtain cleaned os1 where cl: "cleanup_old_documentation os output_file = (cleaned, os1)"
    by (cases "cleanup_old_documentation os output_file")
  have s: "save_error os1 = save_error os"
    using cleanup_keeps(1) [of os output_file] cl by simp
  show ?thesis
    unfolding generate_documentation_def create_sections_accepted cl
    by (simp add: s split: option.splits save_failure.splits)
qed

lemma main_saves:
  assumes "save_error os ''Guessing_Game_Documentation.docx'' = None"
    and "accepted now (comments_data (snd (parse_files read_file ast_parse
           DocumentationGenerator_init [''guessing_game.py'', ''documentation_generator.py''])))"
  shows "files (fst (snd (documentation_generator_main read_file ast_parse now os)))
           ''Guessing_Game_Documentation.docx'' =
         Some (Saved (report_blocks now (comments_data (snd (parse_files read_file ast_parse
           DocumentationGenerator_init [''guessing_game.py'', ''documentation_generator.py''])))))"
proof -
  let ?paths = "[''guessing_game.py'', ''documentation_generator.py'']"
  obtain out generator where
    p: "parse_files read_file ast_parse DocumentationGenerator_init ?paths = (out, generator)"
    by (cases "parse_files read_file ast_parse DocumentationGenerator_init ?paths")
  from parse_files_effect [of read_file ast_parse DocumentationGenerator_init ?paths] p
  have d: "doc generator = []"
    by (auto simp: DocumentationGenerator_init_def simp del: parse_files.simps)
  from assms(2) p have a: "accepted now (comments_data generator)"
    by (simp del: parse_files.simps)
  from assms(1) a d
  have "files (fst (snd (generate_documentation now os generator ''Guessing_Game_Documentation.docx'')))
      ''Guessing_Game_Documentation.docx'' =
      Some (Saved (report_blocks now (comments_data generator)))"
    by (simp add: generate_documentation_cases)
  with p show ?thesis
    by (simp add: documentation_generator_main_def split_beta del: parse_files.simps)
qed

lemma xml_ok_points: "xml_ok (points s) = clean s"
proof -
  have "xml_char (of_char c) = (32 \<le> (of_char c :: nat) \<or> of_char c \<in> {9, 10, 13 :: nat})" for c
  proof -
    show ?thesis
      using nat_of_char_less_256 [of c]
      by (auto simp: xml_char_def simp del: nat_of_char_less_256)
  qed
  then show ?thesis
    by (simp add: xml_ok_def points_def clean_def list_all_iff)
qed

lemma clean_append [simp]: "clean (a @ b) = (clean a \<and> clean b)"
  by (simp add: clean_def)

lemma clean_Cons: "clean (c # s) = ((32 \<le> (of_char c :: nat) \<or> of_char c \<in> {9, 10, 13 :: nat}) \<and> clean s)"
  by (simp add: clean_def)

lemma clean_Nil [simp]: "clean []"
  by (simp add: clean_def)

lemma clean_digits_of: "clean (digits_of n)"
proof (induction n rule: digits_of.induct)
  case (1 n)
  have d: "clean [digit_char k]" if "k < 10" for k
  proof -
    from that have "k \<in> {0, 1, 2, 3, 4, 5, 6, 7, 8, 9}" by auto
    then show ?thesis by (auto simp: digit_char_def clean_Cons)
  qed
  show ?case
  proof (cases "n < 10")
    case True
    then show ?thesis using d [of n] by (simp add: digits_of.simps [of n])
  next
    case False
    then show ?thesis using 1 d [of "n mod 10"] by (simp add: digits_of.simps [of n])
  qed
qed

lemma clean_str_int: "clean (str_int i)"
  by (simp add: str_int_def clean_digits_of clean_Cons)

lemma texts_concat:
  "list_all xml_ok (concat (map block_texts (concat bss))) =
     (\<forall>bs \<in> set bss. list_all xml_ok (concat (map block_texts bs)))"
  by (induction bss) auto

lemma texts_title: "list_all xml_ok (concat (map block_texts (title_blocks now))) = clean now"
  by (simp add: title_blocks_def plain_def strong_def xml_ok_points clean_Cons)

lemma texts_contents: "list_all xml_ok (concat (map block_texts contents_blocks))"
  by (simp add: contents_blocks_def plain_def strong_def xml_ok_points clean_Cons)

lemma texts_introduction: "list_all xml_ok (concat (map block_texts introduction_blocks))"
proof -
  have "xml_ok ([10, 8226] @ points t) = clean t" for t
    using xml_ok_points [of t] by (simp add: xml_ok_def xml_char_def)
  then show ?thesis
    by (simp add: introduction_blocks_def plain_def bullet_def xml_ok_points clean_Cons)
qed

lemma texts_module:
  "list_all xml_ok (concat (map block_texts (module_blocks d))) =
     (node_type d = ''Module'' \<longrightarrow> clean (docstring d))"
  by (simp add: module_blocks_def plain_def strong_def xml_ok_points clean_Cons)

lemma texts_files:
  "list_all xml_ok (concat (map block_texts (file_blocks data))) =
     (\<forall>fd \<in> set data. clean (file_path fd)
        \<and> (\<forall>d \<in> set (docstrings fd). node_type d = ''Module'' \<longrightarrow> clean (docstring d)))"
  by (simp add: file_blocks_def texts_concat texts_module xml_ok_points clean_Cons)

lemma texts_definition:
  "list_all xml_ok (concat (map block_texts (definition_blocks d))) =
     (node_type d \<in> {''ClassDef'', ''FunctionDef''} \<longrightarrow>
        clean (node_name d) \<and> clean (docstring d))"
  by (auto simp: definition_blocks_def plain_def xml_ok_points clean_Cons)

lemma texts_definitions:
  "list_all xml_ok (concat (map block_texts (class_function_blocks data))) =
     (\<forall>fd \<in> set data. \<forall>d \<in> set (docstrings fd).
        node_type d \<in> {''ClassDef'', ''FunctionDef''} \<longrightarrow>
          clean (node_name d) \<and> clean (docstring d))"
  by (simp add: class_function_blocks_def texts_concat texts_definition xml_ok_points clean_Cons)

lemma texts_map:
  "list_all xml_ok (concat (map block_texts (map f zs))) =
     (\<forall>z \<in> set zs. list_all xml_ok (block_texts (f z)))"
  by (induction zs) auto

lemma texts_comment_blocks:
  "list_all xml_ok (concat (map block_texts (comment_blocks cs))) =
     (\<forall>c \<in> set cs. clean (strip c))"
proof (cases "cs = []")
  case True
  then show ?thesis
    by (simp add: comment_blocks_def plain_def xml_ok_points clean_Cons)
next
  case False
  let ?zs = "zip [1 ..< Suc (length cs)] cs"
  have one: "list_all xml_ok (block_texts (case z of (i, comment) \<Rightarrow>
      Paragraph [strong (''Comment '' @ str_int (int i) @ '': ''), plain (strip comment)])) =
      clean (strip (snd z))" for z :: "nat \<times> string"
    by (cases z) (simp add: plain_def strong_def xml_ok_points clean_Cons clean_str_int)
  have "list_all xml_ok (concat (map block_texts (comment_blocks cs))) =
      (\<forall>z \<in> set ?zs. clean (strip (snd z)))"
    using False unfolding comment_blocks_def by (simp only: if_False texts_map one)
  also have "\<dots> = (\<forall>c \<in> set (map snd ?zs). clean (strip c))"
    by simp
  also have "map snd ?zs = cs"
    by (rule map_snd_zip) (simp del: upt_Suc)
  finally show ?thesis .
qed

lemma texts_comments:
  "list_all xml_ok (concat (map block_texts (comments_section_blocks data))) =
     (\<forall>fd \<in> set data. clean (file_path fd) \<and> (\<forall>c \<in> set (comments fd). clean (strip c)))"
  by (simp add: comments_section_blocks_def texts_concat texts_comment_blocks xml_ok_points
      clean_Cons)

lemma accepted_iff:
  "accepted now data =
     (clean now
      \<and> (\<forall>fd \<in> set data. clean (file_path fd)
           \<and> (\<forall>c \<in> set (comments fd). clean (strip c))
           \<and> (\<forall>d \<in> set (docstrings fd).
                 (node_type d = ''Module'' \<longrightarrow> clean (docstring d))
                 \<and> (node_type d \<in> {''ClassDef'', ''FunctionDef''} \<longrightarrow>
                      clean (node_name d) \<and> clean (docstring d)))))"
  unfolding accepted_def report_blocks_def
  by (simp add: texts_title texts_contents texts_introduction texts_files texts_definitions
      texts_comments) blast

text \<open>
  C7, as stated, fails: with an old file that cannot be removed and a comment that
  holds a form feed, \<open>generate_documentation\<close> prints the warning and then ends in the
  \<open>ValueError\<close> of the document library; nothing is written and the path still holds
  the old file.
\<close>

theorem old_report_replaced_counterexample:
  "files example_os ''out.docx'' = Some (Foreign ''old'')
   \<and> remove_error example_os ''out.docx'' = Some (Exc ''Permission denied'')
   \<and> save_error example_os ''out.docx'' = None
   \<and> comments_data feed_generator =
        [\<lparr>file_path = ''feed.py'', comments = ['' a'' @ [CHR 0x0C] @ ''b''], docstrings = []\<rparr>]
   \<and> generate_documentation ''2024-01-01 00:00:00'' example_os feed_generator ''out.docx'' =
        ([''Starting documentation generation...'',
          ''Warning: Could not delete old documentation: Permission denied''],
         example_os, Inl xml_error)
   \<and> files example_os ''out.docx'' \<noteq>
        Some (Saved (report_blocks ''2024-01-01 00:00:00'' (comments_data feed_generator)))"
proof -
  have h: "files example_os ''out.docx'' = Some (Foreign ''old'')"
    "remove_error example_os ''out.docx'' = Some (Exc ''Permission denied'')"
    "save_error example_os ''out.docx'' = None"
    by (simp_all add: example_os_def)
  have c: "comments_data feed_generator =
        [\<lparr>file_path = ''feed.py'', comments = ['' a'' @ [CHR 0x0C] @ ''b''], docstrings = []\<rparr>]"
    by (simp add: feed_generator_def parse_python_file_def feed_read_def feed_parse_def
        feed_source_def not_newline_def DocumentationGenerator_init_def extract_docstrings_def
        walk_def node_entries_def get_docstring_def)
  have "\<not> xml_ok (points (strip [CHR '' '', CHR ''a'', CHR 0x0C, CHR ''b'']))"
    by (simp add: strip_def isspace_def xml_ok_def points_def xml_char_def)
  then have n: "\<not> accepted ''2024-01-01 00:00:00'' (comments_data feed_generator)"
    unfolding c accepted_def report_blocks_def comments_section_blocks_def
    by (simp add: comment_blocks_def plain_def strong_def)
  have w: "cleanup_old_documentation example_os ''out.docx'' =
      ([''Warning: Could not delete old documentation: Permission denied''], example_os)"
    using h by (simp add: cleanup_old_documentation_def)
  from n w have "generate_documentation ''2024-01-01 00:00:00'' example_os feed_generator ''out.docx'' =
        ([''Starting documentation generation...'',
          ''Warning: Could not delete old documentation: Permission denied''],
         example_os, Inl xml_error)"
    by (simp add: generate_documentation_cases)
  with h c show ?thesis by simp
qed

text \<open>
  C7, amended. \<open>generate_documentation\<close> first removes a file that exists at the output
  path; when the removal raises it prints a warning, leaves the file system alone and
  goes on. The document library accepts every text of the report exactly when the
  time stamp, the file paths, the stripped comments, the module docstrings and the
  names and docstrings of classes and functions hold no control character other than
  tab, line feed and carriage return. When it does and the save succeeds, the file at
  the path holds the document of the generator with the sections built from its
  collected data, whatever the path held before, and no other path has changed; after
  a run of the program that is the report of the files parsed in this run and nothing
  else. Otherwise the exception leaves the call and no report is written: the path
  holds what the clean-up left when the library refuses a text or the save is
  refused, and a file cut short when the save fails after opening it.
\<close>

theorem old_report_replaced:
  "(accepted now (comments_data self) =
      (clean now
       \<and> (\<forall>fd \<in> set (comments_data self). clean (file_path fd)
            \<and> (\<forall>c \<in> set (comments fd). clean (strip c))
            \<and> (\<forall>d \<in> set (docstrings fd).
                  (node_type d = ''Module'' \<longrightarrow> clean (docstring d))
                  \<and> (node_type d \<in> {''ClassDef'', ''FunctionDef''} \<longrightarrow>
                       clean (node_name d) \<and> clean (docstring d))))))
   \<and> (files os output_file \<noteq> None \<and> remove_error os output_file = None \<longrightarrow>
      cleanup_old_documentation os output_file =
        ([''Deleted old documentation: '' @ output_file],
         os\<lparr>files := (files os)(output_file := None)\<rparr>))
   \<and> (files os output_file \<noteq> None \<and> remove_error os output_file = Some e \<longrightarrow>
      cleanup_old_documentation os output_file =
        ([''Warning: Could not delete old documentation: '' @ message e], os))
   \<and> (accepted now (comments_data self) \<and> save_error os output_file = None \<longrightarrow>
        (\<exists>out os'. generate_documentation now os self output_file =
             (''Starting documentation generation...'' #
                fst (cleanup_old_documentation os output_file) @ out,
              os', Inr (self\<lparr>doc := doc self @ report_blocks now (comments_data self)\<rparr>))
           \<and> files os' output_file =
                Some (Saved (doc self @ report_blocks now (comments_data self)))
           \<and> (\<forall>p. p \<noteq> output_file \<longrightarrow> files os' p = files os p)))
   \<and> (\<not> accepted now (comments_data self) \<longrightarrow>
        generate_documentation now os self output_file =
          (''Starting documentation generation...'' # fst (cleanup_old_documentation os output_file),
           snd (cleanup_old_documentation os output_file), Inl xml_error))
   \<and> (accepted now (comments_data self) \<and> save_error os output_file = Some (Refused e') \<longrightarrow>
        generate_documentation now os self output_file =
          (''Starting documentation generation...'' # fst (cleanup_old_documentation os output_file),
           snd (cleanup_old_documentation os output_file), Inl e'))
   \<and> (accepted now (comments_data self) \<and> save_error os output_file = Some (Interrupted e') \<longrightarrow>
        generate_documentation now os self output_file =
          (''Starting documentation generation...'' # fst (cleanup_old_documentation os output_file),
           (snd (cleanup_old_documentation os output_file))
             \<lparr>files := (files (snd (cleanup_old_documentation os output_file)))
                (output_file \<mapsto> Truncated)\<rparr>,
           Inl e'))
   \<and> (save_error os ''Guessing_Game_Documentation.docx'' = None
       \<and> accepted now (comments_data (snd (parse_files read_file ast_parse
           DocumentationGenerator_init [''guessing_game.py'', ''documentation_generator.py''])))
       \<longrightarrow>
        files (fst (snd (documentation_generator_main read_file ast_parse now os)))
           ''Guessing_Game_Documentation.docx'' =
         Some (Saved (report_blocks now (comments_data (snd (parse_files read_file ast_parse
           DocumentationGenerator_init [''guessing_game.py'', ''documentation_generator.py'']))))))"
proof -
  have a: "cleanup_old_documentation os output_file =
        ([''Deleted old documentation: '' @ output_file],
         os\<lparr>files := (files os)(output_file := None)\<rparr>)"
    if "files os output_file \<noteq> None \<and> remove_error os output_file = None"
    using that by (auto simp: cleanup_old_documentation_def)
  have b: "cleanup_old_documentation os output_file =
        ([''Warning: Could not delete old documentation: '' @ message e], os)"
    if "files os output_file \<noteq> None \<and> remove_error os output_file = Some e"
    using that by (auto simp: cleanup_old_documentation_def)
  have c: "\<exists>out os'. generate_documentation now os self output_file =
             (''Starting documentation generation...'' #
                fst (cleanup_old_documentation os output_file) @ out,
              os', Inr (self\<lparr>doc := doc self @ report_blocks now (comments_data self)\<rparr>))
           \<and> files os' output_file =
                Some (Saved (doc self @ report_blocks now (comments_data self)))
           \<and> (\<forall>p. p \<noteq> output_file \<longrightarrow> files os' p = files os p)"
    if "accepted now (comments_data self) \<and> save_error os output_file = None"
    using that cleanup_keeps(2) [of _ output_file os]
    by (simp add: generate_documentation_cases)
  have d: "generate_documentation now os self output_file =
          (''Starting documentation generation...'' # fst (cleanup_old_documentation os output_file),
           snd (cleanup_old_documentation os output_file), Inl xml_error)"
    if "\<not> accepted now (comments_data self)"
    using that by (simp add: generate_documentation_cases)
  have f: "generate_documentation now os self output_file =
          (''Starting documentation generation...'' # fst (cleanup_old_documentation os output_file),
           snd (cleanup_old_documentation os output_file), Inl e')"
    if "accepted now (comments_data self) \<and> save_error os output_file = Some (Refused e')"
    using that by (simp add: generate_documentation_cases)
  have g: "generate_documentation now os self output_file =
          (''Starting documentation generation...'' # fst (cleanup_old_documentation os output_file),
           (snd (cleanup_old_documentation os output_file))
             \<lparr>files := (files (snd (cleanup_old_documentation os output_file)))
                (output_file \<mapsto> Truncated)\<rparr>,
           Inl e')"
    if "accepted now (comments_data self) \<and> save_error os output_file = Some (Interrupted e')"
    using that by (simp add: generate_documentation_cases)
  from a b c d f g main_saves [of os now read_file ast_parse]
  have "(files os output_file \<noteq> None \<and> remove_error os output_file = None \<longrightarrow>
      cleanup_old_documentation os output_file =
        ([''Deleted old documentation: '' @ output_file],
         os\<lparr>files := (files os)(output_file := None)\<rparr>))
   \<and> (files os output_file \<noteq> None \<and> remove_error os output_file = Some e \<longrightarrow>
      cleanup_old_documentation os output_file =
        ([''Warning: Could not delete old documentation: '' @ message e], os))
   \<and> (accepted now (comments_data self) \<and> save_error os output_file = None \<longrightarrow>
        (\<exists>out os'. generate_documentation now os self output_file =
             (''Starting documentation generation...'' #
                fst (cleanup_old_documentation os output_file) @ out,
              os', Inr (self\<lparr>doc := doc self @ report_blocks now (comments_data self)\<rparr>))
           \<and> files os' output_file =
                Some (Saved (doc self @ report_blocks now (comments_data self)))
           \<and> (\<forall>p. p \<noteq> output_file \<longrightarrow> files os' p = files os p)))
   \<and> (\<not> accepted now (comments_data self) \<longrightarrow>
        generate_documentation now os self output_file =
          (''Starting documentation generation...'' # fst (cleanup_old_documentation os output_file),
           snd (cleanup_old_documentation os output_file), Inl xml_error))
   \<and> (accepted now (comments_data self) \<and> save_error os output_file = Some (Refused e') \<longrightarrow>
        generate_documentation now os self output_file =
          (''Starting documentation generation...'' # fst (cleanup_old_documentation os output_file),
           snd (cleanup_old_documentation os output_file), Inl e'))
   \<and> (accepted now (comments_data self) \<and> save_error os output_file = Some (Interrupted e') \<longrightarrow>
        generate_documentation now os self output_file =
          (''Starting documentation generation...'' # fst (cleanup_old_documentation os output_file),
           (snd (cleanup_old_documentation os output_file))
             \<lparr>files := (files (snd (cleanup_old_documentation os output_file)))
                (output_file \<mapsto> Truncated)\<rparr>,
           Inl e'))
   \<and> (save_error os ''Guessing_Game_Documentation.docx'' = None
       \<and> accepted now (comments_data (snd (parse_files read_file ast_parse
           DocumentationGenerator_init [''guessing_game.py'', ''documentation_generator.py''])))
       \<longrightarrow>
        files (fst (snd (documentation_generator_main read_file ast_parse now os)))
           ''Guessing_Game_Documentation.docx'' =
         Some (Saved (report_blocks now (comments_data (snd (parse_files read_file ast_parse
           DocumentationGenerator_init [''guessing_game.py'', ''documentation_generator.py'']))))))"
    by blast
  with accepted_iff [of now "comments_data self"] show ?thesis by (rule conjI)
qed

theorem old_report_replaced_witness:
  "accepted ''2024-01-01 00:00:00'' (comments_data DocumentationGenerator_init)
   \<and> cleanup_old_documentation full_disk_os ''out.docx'' =
        ([''Deleted old documentation: out.docx''],
         full_disk_os\<lparr>files := (files full_disk_os)(''out.docx'' := None)\<rparr>)
   \<and> cleanup_old_documentation example_os ''out.docx'' =
        ([''Warning: Could not delete old documentation: Permission denied''], example_os)
   \<and> files (fst (snd (generate_documentation ''2024-01-01 00:00:00'' example_os
          DocumentationGenerator_init ''out.docx''))) ''out.docx'' =
        Some (Saved (report_blocks ''2024-01-01 00:00:00'' []))
   \<and> \<not> accepted ''2024-01-01 00:00:00'' (comments_data feed_generator)
   \<and> generate_documentation ''2024-01-01 00:00:00'' full_disk_os feed_generator ''out.docx'' =
        ([''Starting documentation generation...'', ''Deleted old documentation: out.docx''],
         full_disk_os\<lparr>files := (files full_disk_os)(''out.docx'' := None)\<rparr>, Inl xml_error)
   \<and> generate_documentation ''2024-01-01 00:00:00'' read_only_os DocumentationGenerator_init
        ''out.docx'' =
        ([''Starting documentation generation...'',
          ''Warning: Could not delete old documentation: Permission denied''],
         read_only_os, Inl (Exc ''Permission denied''))
   \<and> files (fst (snd (generate_documentation ''2024-01-01 00:00:00'' full_disk_os
          DocumentationGenerator_init ''out.docx''))) ''out.docx'' = Some Truncated
   \<and> snd (snd (generate_documentation ''2024-01-01 00:00:00'' full_disk_os
          DocumentationGenerator_init ''out.docx'')) = Inl (Exc ''No space left on device'')
   \<and> files (fst (snd (documentation_generator_main plain_read plain_parse
          ''2024-01-01 00:00:00'' example_os))) ''Guessing_Game_Documentation.docx'' =
        Some (Saved (report_blocks ''2024-01-01 00:00:00''
          [\<lparr>file_path = ''guessing_game.py'', comments = ['' a'', ''  b  ''],
            docstrings = [\<lparr>node_type = ''Module'', node_name = ''Module'', docstring = ''Doc''\<rparr>,
                          \<lparr>node_type = ''FunctionDef'', node_name = ''f'', docstring = ''F.''\<rparr>]\<rparr>,
           \<lparr>file_path = ''documentation_generator.py'', comments = ['' a'', ''  b  ''],
            docstrings = [\<lparr>node_type = ''Module'', node_name = ''Module'', docstring = ''Doc''\<rparr>,
                          \<lparr>node_type = ''FunctionDef'', node_name = ''f'', docstring = ''F.''\<rparr>]\<rparr>]))"
proof -
  let ?now = "''2024-01-01 00:00:00''"
  let ?init = "DocumentationGenerator_init"
  have i: "comments_data ?init = []" "doc ?init = []"
    by (simp_all add: DocumentationGenerator_init_def)
  have w1: "accepted ?now (comments_data ?init)"
    using old_report_replaced [where now = ?now and self = ?init, THEN conjunct1]
    by (simp add: i clean_def)
  have w2: "cleanup_old_documentation full_disk_os ''out.docx'' =
        ([''Deleted old documentation: out.docx''],
         full_disk_os\<lparr>files := (files full_disk_os)(''out.docx'' := None)\<rparr>)"
    using old_report_replaced [where os = full_disk_os and output_file = "''out.docx''",
        THEN conjunct2, THEN conjunct1]
    by (simp add: full_disk_os_def)
  have w3: "cleanup_old_documentation example_os ''out.docx'' =
        ([''Warning: Could not delete old documentation: Permission denied''], example_os)"
    using old_report_replaced [where os = example_os and output_file = "''out.docx''"
        and e = "Exc ''Permission denied''", THEN conjunct2, THEN conjunct2, THEN conjunct1]
    by (simp add: example_os_def)
  have s: "save_error example_os ''out.docx'' = None"
    "save_error example_os ''Guessing_Game_Documentation.docx'' = None"
    "save_error read_only_os ''out.docx'' = Some (Refused (Exc ''Permission denied''))"
    "save_error full_disk_os ''out.docx'' = Some (Interrupted (Exc ''No space left on device''))"
    by (simp_all add: example_os_def read_only_os_def full_disk_os_def)
  from old_report_replaced [where os = example_os and output_file = "''out.docx''"
        and now = ?now and self = ?init,
        THEN conjunct2, THEN conjunct2, THEN conjunct2, THEN conjunct1] w1 s(1)
  have w4: "files (fst (snd (generate_documentation ?now example_os ?init ''out.docx'')))
        ''out.docx'' = Some (Saved (report_blocks ?now []))"
    by (auto simp: i)
  have c: "comments_data feed_generator =
        [\<lparr>file_path = ''feed.py'', comments = ['' a'' @ [CHR 0x0C] @ ''b''], docstrings = []\<rparr>]"
    by (simp add: feed_generator_def parse_python_file_def feed_read_def feed_parse_def
        feed_source_def not_newline_def DocumentationGenerator_init_def extract_docstrings_def
        walk_def node_entries_def get_docstring_def)
  have w5: "\<not> accepted ?now (comments_data feed_generator)"
    using old_report_replaced [where now = ?now and self = feed_generator, THEN conjunct1]
    unfolding c by (simp add: clean_def strip_def isspace_def)
  from old_report_replaced [where os = full_disk_os and output_file = "''out.docx''"
        and now = ?now and self = feed_generator,
        THEN conjunct2, THEN conjunct2, THEN conjunct2, THEN conjunct2, THEN conjunct1] w5
  have w6: "generate_documentation ?now full_disk_os feed_generator ''out.docx'' =
        ([''Starting documentation generation...'', ''Deleted old documentation: out.docx''],
         full_disk_os\<lparr>files := (files full_disk_os)(''out.docx'' := None)\<rparr>, Inl xml_error)"
    by (simp add: w2)
  have r: "cleanup_old_documentation read_only_os ''out.docx'' =
        ([''Warning: Could not delete old documentation: Permission denied''], read_only_os)"
    by (simp add: cleanup_old_documentation_def read_only_os_def)
  from old_report_replaced [where os = read_only_os and output_file = "''out.docx''"
        and now = ?now and self = ?init and e' = "Exc ''Permission denied''",
        THEN conjunct2, THEN conjunct2, THEN conjunct2, THEN conjunct2, THEN conjunct2,
        THEN conjunct1] w1 s(3)
  have w7: "generate_documentation ?now read_only_os ?init ''out.docx'' =
        ([''Starting documentation generation...'',
          ''Warning: Could not delete old documentation: Permission denied''],
         read_only_os, Inl (Exc ''Permission denied''))"
    by (simp add: r)
  from old_report_replaced [where os = full_disk_os and output_file = "''out.docx''"
        and now = ?now and self = ?init and e' = "Exc ''No space left on device''",
        THEN conjunct2, THEN conjunct2, THEN conjunct2, THEN conjunct2, THEN conjunct2,
        THEN conjunct2, THEN conjunct1] w1 s(4)
  have w8: "files (fst (snd (generate_documentation ?now full_disk_os ?init ''out.docx'')))
        ''out.docx'' = Some Truncated"
    "snd (snd (generate_documentation ?now full_disk_os ?init ''out.docx'')) =
        Inl (Exc ''No space left on device'')"
    by (simp_all add: w2)
  let ?entry = "\<lambda>p. \<lparr>file_path = p, comments = ['' a'', ''  b  ''],
            docstrings = [\<lparr>node_type = ''Module'', node_name = ''Module'', docstring = ''Doc''\<rparr>,
                          \<lparr>node_type = ''FunctionDef'', node_name = ''f'', docstring = ''F.''\<rparr>]\<rparr>"
  have p: "parse_python_file plain_read plain_parse self path =
      ([], self\<lparr>comments_data := comments_data self @ [?entry path]\<rparr>)" for self path
    by (simp add: parse_python_file_def plain_read_def plain_parse_def plain_comments
        plain_docstrings)
  have d: "comments_data (snd (parse_files plain_read plain_parse ?init
      [''guessing_game.py'', ''documentation_generator.py''])) =
      [?entry ''guessing_game.py'', ?entry ''documentation_generator.py'']"
    by (simp add: p i)
  have a: "accepted ?now [?entry ''guessing_game.py'', ?entry ''documentation_generator.py'']"
    by (simp add: accepted_iff clean_def strip_def isspace_def)
  from old_report_replaced [where os = example_os and now = ?now and read_file = plain_read
        and ast_parse = plain_parse,
        THEN conjunct2, THEN conjunct2, THEN conjunct2, THEN conjunct2, THEN conjunct2,
        THEN conjunct2, THEN conjunct2] s(2) a
  have w9: "files (fst (snd (documentation_generator_main plain_read plain_parse ?now example_os)))
        ''Guessing_Game_Documentation.docx'' =
      Some (Saved (report_blocks ?now
        [?entry ''guessing_game.py'', ?entry ''documentation_generator.py'']))"
    unfolding d by simp
  from w1 w2 w3 w4 w5 w6 w7 w8 w9 show ?thesis by simp
qed

end
